theory Spec2Isabelle
  imports Main "HOL-Library.Word"
begin

unbundle bit_operations_syntax

section \<open>The ring buffer of pwm\_audio.c\<close>

text \<open>
  The model follows \<^verbatim>\<open>src/audio_demo/components/pwm_audio/pwm_audio.c\<close>.
  The targets (ESP32, ESP32-S2) are 32-bit little-endian machines: \<^verbatim>\<open>uint32_t\<close>,
  \<^verbatim>\<open>size_t\<close> and \<^verbatim>\<open>unsigned long\<close> are \<^typ>\<open>32 word\<close>, \<^verbatim>\<open>uint16_t\<close> is
  \<^typ>\<open>16 word\<close> and \<^verbatim>\<open>uint8_t\<close> is \<^typ>\<open>8 word\<close>; word arithmetic wraps as in C.
\<close>

text \<open>The error codes of \<^verbatim>\<open>esp_err.h\<close> (ESP-IDF) that the file returns.\<close>

datatype esp_err_t =
  ESP_OK | ESP_FAIL | ESP_ERR_NO_MEM | ESP_ERR_INVALID_ARG | ESP_ERR_INVALID_STATE

text \<open>
  \<^verbatim>\<open>ringBuf\<close>: the storage \<^verbatim>\<open>buf\<close> is the list of its bytes, the indices and the
  size are the \<^verbatim>\<open>uint32_t\<close> fields of the struct. The field \<^verbatim>\<open>size\<close> is called
  \<open>size_rb\<close> here. The FreeRTOS semaphore object behind \<^verbatim>\<open>semaphore_rb\<close> is not part
  of the file: a take is an input of the environment (see \<open>rb_wait_semaphore\<close>), a give
  is an event of the interrupt handler.
\<close>

record ringBuf =
  buf :: "8 word list"
  head :: "32 word"
  tail :: "32 word"
  size_rb :: "32 word"
  is_give :: "32 word"

definition BUFFER_MIN_SIZE :: "32 word" where
  "BUFFER_MIN_SIZE = 256"

text \<open>
  \<^verbatim>\<open>rb_create(int size)\<close>. The comparison \<^verbatim>\<open>size < (BUFFER_MIN_SIZE << 2)\<close> has an
  \<^verbatim>\<open>unsigned long\<close> right-hand side, so the \<^verbatim>\<open>int\<close> is converted and compared unsigned:
  the argument is given as its 32-bit pattern \<open>sz\<close>. Whether the three allocations succeed
  is the input \<open>alloc_ok\<close>; \<open>junk\<close> is the uninitialised content of the storage that
  \<^verbatim>\<open>malloc(size)\<close> returns.
\<close>

definition rb_create :: "32 word \<Rightarrow> bool \<Rightarrow> (nat \<Rightarrow> 8 word) \<Rightarrow> ringBuf option" where
  "rb_create sz alloc_ok junk =
     (if sz < push_bit 2 BUFFER_MIN_SIZE then None
      else if \<not> alloc_ok then None
      else Some \<lparr>buf = map junk [0..<unat sz], head = 0, tail = 0, size_rb = sz, is_give = 0\<rparr>)"

definition rb_get_count :: "ringBuf \<Rightarrow> 32 word" where
  "rb_get_count rb =
     (let tail' = tail rb in
      if head rb \<ge> tail' then head rb - tail'
      else size_rb rb - (tail' - head rb))"

definition rb_get_free :: "ringBuf \<Rightarrow> 32 word" where
  "rb_get_free rb = size_rb rb - rb_get_count rb - 1"

definition rb_flush :: "ringBuf \<Rightarrow> esp_err_t \<times> ringBuf" where
  "rb_flush rb = (ESP_OK, rb\<lparr>tail := 0, head := 0\<rparr>)"

text \<open>
  \<^verbatim>\<open>rb_read_byte(rb, &outdata)\<close>: \<open>outdata\<close> is the current content of the variable the
  pointer refers to, returned unchanged when the buffer is empty. The accesses
  \<^verbatim>\<open>buf[tail]\<close> here and \<^verbatim>\<open>buf[head]\<close> in \<^verbatim>\<open>rb_write_byte\<close> are unchecked in the
  source; they lie inside the storage in every state that the operations reach from
  \<^verbatim>\<open>rb_create\<close>, which is proved with the properties of the ring buffer below.
\<close>

definition rb_read_byte :: "ringBuf \<Rightarrow> 8 word \<Rightarrow> esp_err_t \<times> 8 word \<times> ringBuf" where
  "rb_read_byte rb outdata =
     (let tail0 = tail rb in
      if tail0 = head rb then (ESP_FAIL, outdata, rb)
      else
        let outdata' = buf rb ! unat tail0;
            tail1 = tail0 + 1;
            tail2 = (if tail1 = size_rb rb then 0 else tail1)
        in (ESP_OK, outdata', rb\<lparr>tail := tail2\<rparr>))"

definition rb_write_byte :: "ringBuf \<Rightarrow> 8 word \<Rightarrow> esp_err_t \<times> ringBuf" where
  "rb_write_byte rb indata =
     (let next_head0 = head rb + 1;
          next_head = (if next_head0 = size_rb rb then 0 else next_head0)
      in if next_head = tail rb then (ESP_FAIL, rb)
         else (ESP_OK, rb\<lparr>buf := (buf rb)[unat (head rb) := indata], head := next_head\<rparr>))"

text \<open>
  \<^verbatim>\<open>rb_wait_semaphore\<close>: clears the guard flag, then blocks in \<^verbatim>\<open>xSemaphoreTake\<close>.
  Whether the take returns \<^verbatim>\<open>pdTRUE\<close> within \<^verbatim>\<open>ticks_to_wait\<close> is decided by the
  scheduler and the interrupt handler: it is the input \<open>taken\<close>.
\<close>

definition rb_wait_semaphore :: "ringBuf \<Rightarrow> bool \<Rightarrow> esp_err_t \<times> ringBuf" where
  "rb_wait_semaphore rb taken = (if taken then ESP_OK else ESP_FAIL, rb\<lparr>is_give := 0\<rparr>)"

subsection \<open>Sequences of ring buffer operations\<close>

datatype rb_op = Write_byte "8 word" | Read_byte | Flush

fun rb_apply :: "rb_op \<Rightarrow> ringBuf \<Rightarrow> ringBuf" where
  "rb_apply (Write_byte b) rb = snd (rb_write_byte rb b)"
| "rb_apply Read_byte rb = snd (snd (rb_read_byte rb 0))"
| "rb_apply Flush rb = snd (rb_flush rb)"

definition rb_run :: "rb_op list \<Rightarrow> ringBuf \<Rightarrow> ringBuf" where
  "rb_run ops rb = fold rb_apply ops rb"

text \<open>
  The invariant of the indices: both stay below the size. The full invariant adds that
  the storage has the length recorded in \<open>size_rb\<close>, as \<open>rb_create\<close> allocates it.
\<close>

definition rb_idx_ok :: "ringBuf \<Rightarrow> bool" where
  "rb_idx_ok rb \<longleftrightarrow> head rb < size_rb rb \<and> tail rb < size_rb rb"

definition rb_inv :: "ringBuf \<Rightarrow> bool" where
  "rb_inv rb \<longleftrightarrow> rb_idx_ok rb \<and> length (buf rb) = unat (size_rb rb)"

text \<open>The bytes stored and not yet read, oldest first.\<close>

definition rb_contents :: "ringBuf \<Rightarrow> 8 word list" where
  "rb_contents rb =
     map (\<lambda>i. buf rb ! ((unat (tail rb) + i) mod unat (size_rb rb))) [0..<unat (rb_get_count rb)]"

section \<open>The session handle and the control functions\<close>

text \<open>
  Modelled from the spec: the enumeration \<^verbatim>\<open>pwm_audio_status_t\<close> is declared in
  \<^verbatim>\<open>pwm_audio.h\<close>, which is not among the sources; the spec names the three run
  states Uninitialized, Idle and Busy.
\<close>

datatype pwm_audio_status_t =
  PWM_AUDIO_STATUS_UN_INIT | PWM_AUDIO_STATUS_IDLE | PWM_AUDIO_STATUS_BUSY

text \<open>
  \<^verbatim>\<open>pwm_audio_handle\<close>, with the fields the streaming engine reads:
  \<open>duty_resolution\<close> is \<^verbatim>\<open>config.duty_resolution\<close>. The signed fields
  (\<^verbatim>\<open>int32_t\<close>, the enumeration of the resolution) are integers: \<^verbatim>\<open>pwm_audio_init\<close>
  admits a resolution from 8 to 10 only and \<^verbatim>\<open>pwm_audio_set_param\<close> a rate from 8000 to
  48000 and 8, 16 or 32 bits, so none of them wraps. The timer and LEDC configuration
  structures belong to the peripheral drivers and are left out.
\<close>

record pwm_audio_handle =
  duty_resolution :: int
  ringbuf :: ringBuf
  channel_mask :: "32 word"
  channel_set_num :: "32 word"
  framerate :: int
  bits_per_sample :: int
  status :: pwm_audio_status_t

definition SAMPLE_RATE_MAX :: int where "SAMPLE_RATE_MAX = 48000"
definition SAMPLE_RATE_MIN :: int where "SAMPLE_RATE_MIN = 8000"
definition CHANNEL_LEFT_MASK :: "32 word" where "CHANNEL_LEFT_MASK = 0x01"
definition CHANNEL_RIGHT_MASK :: "32 word" where "CHANNEL_RIGHT_MASK = 0x02"

text \<open>
  \<^verbatim>\<open>pwm_audio_set_param(rate, bits, ch)\<close> on the session \<^verbatim>\<open>g_pwm_audio_handle\<close> points
  to. Each \<^verbatim>\<open>PWM_AUDIO_CHECK\<close> returns its error before anything is stored. The calls that
  program the hardware timer after the three assignments are the driver's.
\<close>

definition pwm_audio_set_param ::
  "int \<Rightarrow> int \<Rightarrow> int \<Rightarrow> pwm_audio_handle \<Rightarrow> esp_err_t \<times> pwm_audio_handle" where
  "pwm_audio_set_param rate bits ch handle =
     (if \<not> (status handle \<noteq> PWM_AUDIO_STATUS_BUSY) then (ESP_ERR_INVALID_ARG, handle)
      else if \<not> (rate \<le> SAMPLE_RATE_MAX \<and> rate \<ge> SAMPLE_RATE_MIN) then (ESP_ERR_INVALID_ARG, handle)
      else if \<not> (bits = 32 \<or> bits = 16 \<or> bits = 8) then (ESP_ERR_INVALID_ARG, handle)
      else if \<not> (ch \<le> 2 \<and> ch \<ge> 1) then (ESP_ERR_INVALID_ARG, handle)
      else (ESP_OK, handle\<lparr>framerate := rate, bits_per_sample := bits,
                              channel_set_num := word_of_int ch\<rparr>))"

text \<open>
  \<^verbatim>\<open>pwm_audio_set_sample_rate(rate)\<close>; \<open>alarm_res\<close> is what the driver's
  \<^verbatim>\<open>timer_set_alarm_value\<close> returns.
\<close>

definition pwm_audio_set_sample_rate ::
  "int \<Rightarrow> esp_err_t \<Rightarrow> pwm_audio_handle \<Rightarrow> esp_err_t \<times> pwm_audio_handle" where
  "pwm_audio_set_sample_rate rate alarm_res handle =
     (if \<not> (status handle \<noteq> PWM_AUDIO_STATUS_BUSY) then (ESP_ERR_INVALID_ARG, handle)
      else if \<not> (rate \<le> SAMPLE_RATE_MAX \<and> rate \<ge> SAMPLE_RATE_MIN) then (ESP_ERR_INVALID_ARG, handle)
      else (alarm_res, handle\<lparr>framerate := rate\<rparr>))"

text \<open>\<^verbatim>\<open>pwm_audio_start\<close>; \<open>timer_res\<close> is what the driver's \<^verbatim>\<open>timer_start\<close> returns.\<close>

definition pwm_audio_start :: "esp_err_t \<Rightarrow> pwm_audio_handle \<Rightarrow> esp_err_t \<times> pwm_audio_handle" where
  "pwm_audio_start timer_res handle =
     (if \<not> (status handle = PWM_AUDIO_STATUS_IDLE) then (ESP_ERR_INVALID_STATE, handle)
      else (timer_res, handle\<lparr>status := PWM_AUDIO_STATUS_BUSY\<rparr>))"

definition pwm_audio_stop :: "pwm_audio_handle \<Rightarrow> esp_err_t \<times> pwm_audio_handle" where
  "pwm_audio_stop handle =
     (ESP_OK, handle\<lparr>ringbuf := snd (rb_flush (ringbuf handle)), status := PWM_AUDIO_STATUS_IDLE\<rparr>)"

section \<open>The producer: pwm\_audio\_write\<close>

text \<open>Conversion of an \<^verbatim>\<open>int\<close> to \<^verbatim>\<open>int8_t\<close>, as for the variable \<^verbatim>\<open>shift\<close>.\<close>

definition int8 :: "int \<Rightarrow> int" where
  "int8 x = sint (word_of_int x :: 8 word)"

text \<open>
  The samples the casts \<^verbatim>\<open>(uint16_t *)inbuf\<close> and \<^verbatim>\<open>(uint32_t *)inbuf\<close> read on the
  little-endian targets.
\<close>

definition buf_16b :: "8 word list \<Rightarrow> nat \<Rightarrow> 16 word" where
  "buf_16b inbuf i = ucast (inbuf ! (2 * i)) OR push_bit 8 (ucast (inbuf ! (2 * i + 1)))"

definition buf_32b :: "8 word list \<Rightarrow> nat \<Rightarrow> 32 word" where
  "buf_32b inbuf i =
     ucast (inbuf ! (4 * i)) OR push_bit 8 (ucast (inbuf ! (4 * i + 1))) OR
     push_bit 16 (ucast (inbuf ! (4 * i + 2))) OR push_bit 24 (ucast (inbuf ! (4 * i + 3)))"

text \<open>
  The bodies of the six conversion loops: the bytes one sample passes to
  \<^verbatim>\<open>rb_write_byte\<close>, in order. The sums and shifts are those of the C types of
  \<^verbatim>\<open>temp\<close> and \<^verbatim>\<open>value\<close>: \<^verbatim>\<open>value = temp + 0x7fff\<close> stores the \<^verbatim>\<open>int\<close> sum in a
  \<^verbatim>\<open>uint16_t\<close>, which is the sum of 16-bit words. (For 32 bits the \<^verbatim>\<open>int\<close> sum itself
  overflows for positive samples; it is taken to wrap, as the targets' compiler does.)
  A shift count is non-negative for every configuration \<^verbatim>\<open>pwm_audio_init\<close> admits.
\<close>

definition sample_8_wide :: "int \<Rightarrow> 8 word \<Rightarrow> 8 word list" where
  "sample_8_wide shift b =
     (let temp = b + 0x7f;
          v = push_bit (nat shift) (ucast temp :: 16 word)
      in [ucast v, ucast (drop_bit 8 v)])"

definition sample_8 :: "8 word \<Rightarrow> 8 word list" where
  "sample_8 b = (let v = b + 0x7f in [v])"

definition sample_16_wide :: "int \<Rightarrow> 16 word \<Rightarrow> 8 word list" where
  "sample_16_wide shift temp =
     (let v0 = temp + 0x7fff;
          v = drop_bit (nat shift) v0
      in [ucast v, ucast (drop_bit 8 v)])"

definition sample_16 :: "int \<Rightarrow> 16 word \<Rightarrow> 8 word list" where
  "sample_16 shift temp =
     (let v0 = temp + 0x7fff;
          v = drop_bit (nat shift) v0
      in [ucast v])"

definition sample_32_wide :: "int \<Rightarrow> 32 word \<Rightarrow> 8 word list" where
  "sample_32_wide shift temp =
     (let v0 = temp + 0x7fffffff;
          v = drop_bit (nat shift) v0
      in [ucast v, ucast (drop_bit 8 v)])"

definition sample_32 :: "int \<Rightarrow> 32 word \<Rightarrow> 8 word list" where
  "sample_32 shift temp =
     (let v0 = temp + 0x7fffffff;
          v = drop_bit (nat shift) v0
      in [ucast v])"

text \<open>
  The \<^verbatim>\<open>switch\<close> of \<^verbatim>\<open>pwm_audio_write\<close>: the bytes its loops pass to
  \<^verbatim>\<open>rb_write_byte\<close>, in order, and the value of \<^verbatim>\<open>bytes_can_write\<close> after it (halved
  in the 8-bit expansion case). The loops read the input and never the ring buffer, so
  the bytes are computed first and written afterwards by \<open>rb_write_bytes\<close>. Every
  index the loops read is below \<^verbatim>\<open>bytes_can_write\<close>, which is at most \<^verbatim>\<open>inbuf_len\<close>:
  inside the caller's buffer.
\<close>

definition pwm_audio_convert ::
  "pwm_audio_handle \<Rightarrow> 8 word list \<Rightarrow> 32 word \<Rightarrow> 8 word list \<times> 32 word" where
  "pwm_audio_convert handle inbuf bytes_can_write =
     (let shift = int8 (bits_per_sample handle - duty_resolution handle);
          len = bytes_can_write
      in if bits_per_sample handle = 8 then
           (if shift < 0 then
              (let shift' = int8 (- shift);
                   len' = drop_bit 1 len
               in (concat (map (\<lambda>i. sample_8_wide shift' (inbuf ! i)) [0..<unat len']),
                   drop_bit 1 bytes_can_write))
            else (concat (map (\<lambda>i. sample_8 (inbuf ! i)) [0..<unat len]), bytes_can_write))
         else if bits_per_sample handle = 16 then
           (let len' = drop_bit 1 len
            in if duty_resolution handle > 8
               then (concat (map (\<lambda>i. sample_16_wide shift (buf_16b inbuf i)) [0..<unat len']),
                     bytes_can_write)
               else (concat (map (\<lambda>i. sample_16 shift (buf_16b inbuf i)) [0..<unat len']),
                     bytes_can_write))
         else if bits_per_sample handle = 32 then
           (let len' = drop_bit 2 len
            in if duty_resolution handle > 8
               then (concat (map (\<lambda>i. sample_32_wide shift (buf_32b inbuf i)) [0..<unat len']),
                     bytes_can_write)
               else (concat (map (\<lambda>i. sample_32 shift (buf_32b inbuf i)) [0..<unat len']),
                     bytes_can_write))
         else ([], bytes_can_write))"

text \<open>
  Consecutive calls of \<^verbatim>\<open>rb_write_byte\<close>. The source drops every return value; the
  model keeps them beside the buffer so that a failed call can be told.
\<close>

primrec rb_write_bytes :: "ringBuf \<Rightarrow> 8 word list \<Rightarrow> esp_err_t list \<times> ringBuf" where
  "rb_write_bytes rb [] = ([], rb)"
| "rb_write_bytes rb (b # bs) =
     (let (r, rb') = rb_write_byte rb b;
          (rs, rb'') = rb_write_bytes rb' bs
      in (r # rs, rb''))"

definition bytes_can_write_of :: "32 word \<Rightarrow> 32 word \<Rightarrow> 32 word" where
  "bytes_can_write_of inbuf_len free =
     (let bytes_can_write = inbuf_len;
          bytes_can_write = (if inbuf_len > free then free else bytes_can_write)
      in bytes_can_write AND 0xfffffffc)"

text \<open>
  The \<^verbatim>\<open>while (inbuf_len)\<close> loop. Each iteration waits for the semaphore once; the
  outcomes of the waits are the list \<open>waits\<close> (\<open>True\<close>: taken, \<open>False\<close>: timed out).
  The result is \<open>None\<close> when the loop is still running after the last given outcome,
  and \<open>Some (res, bytes_written, handle)\<close> when the function has returned.
  \<open>inbuf\<close> is the caller's buffer from the current position of the pointer.
  Within one call the ring buffer changes by the producer's own writes only: the
  interrupt handler is not run in between (the interleaving of the two is the subject of
  the last section of the model).
\<close>

fun pwm_audio_write_loop ::
  "pwm_audio_handle \<Rightarrow> 8 word list \<Rightarrow> 32 word \<Rightarrow> 32 word \<Rightarrow> esp_err_t \<Rightarrow> bool list \<Rightarrow>
   (esp_err_t \<times> 32 word \<times> pwm_audio_handle) option" where
  "pwm_audio_write_loop handle inbuf inbuf_len bytes_written res [] =
     (if inbuf_len = 0 then Some (res, bytes_written, handle) else None)"
| "pwm_audio_write_loop handle inbuf inbuf_len bytes_written res (taken # waits) =
     (if inbuf_len = 0 then Some (res, bytes_written, handle)
      else
        let (r, rb) = rb_wait_semaphore (ringbuf handle) taken in
        if r = ESP_OK then
          let free = rb_get_free rb;
              bytes_can_write = bytes_can_write_of inbuf_len free
          in if bytes_can_write = 0
             then Some (ESP_OK, bytes_written + inbuf_len, handle\<lparr>ringbuf := rb\<rparr>)
             else
               let (bs, bytes_can_write') = pwm_audio_convert handle inbuf bytes_can_write;
                   rb' = snd (rb_write_bytes rb bs)
               in pwm_audio_write_loop (handle\<lparr>ringbuf := rb'\<rparr>)
                    (drop (unat bytes_can_write') inbuf) (inbuf_len - bytes_can_write')
                    (bytes_written + bytes_can_write') res waits
        else pwm_audio_write_loop (handle\<lparr>ringbuf := rb\<rparr>) inbuf inbuf_len bytes_written
               ESP_FAIL waits)"

text \<open>
  \<^verbatim>\<open>pwm_audio_write(inbuf, inbuf_len, bytes_written, ticks_to_wait)\<close>. A null pointer is
  \<open>None\<close>; \<open>bytes_written\<close> is the content of the caller's variable, left as it is
  when the argument check fails. The caller's buffer holds \<open>inbuf_len\<close> bytes.
\<close>

definition pwm_audio_write ::
  "pwm_audio_handle \<Rightarrow> 8 word list option \<Rightarrow> 32 word \<Rightarrow> 32 word option \<Rightarrow> bool list \<Rightarrow>
   (esp_err_t \<times> 32 word option \<times> pwm_audio_handle) option" where
  "pwm_audio_write handle inbuf inbuf_len bytes_written waits =
     (case (inbuf, bytes_written) of
        (Some data, Some _) \<Rightarrow>
          if inbuf_len \<noteq> 0 then
            map_option (\<lambda>(res, n, handle'). (res, Some n, handle'))
              (pwm_audio_write_loop handle data inbuf_len 0 ESP_OK waits)
          else Some (ESP_ERR_INVALID_ARG, bytes_written, handle)
      | _ \<Rightarrow> Some (ESP_ERR_INVALID_ARG, bytes_written, handle))"

section \<open>The consumer: the timer interrupt handler\<close>

text \<open>
  What the handler works on besides the session: the three LEDC registers of each
  channel, reached through the cached pointers \<^verbatim>\<open>g_ledc_left_duty_val\<close> and so on (the
  two channels are distinct registers), and its \<^verbatim>\<open>static\<close> variables \<^verbatim>\<open>wave_h\<close>,
  \<^verbatim>\<open>wave_l\<close> and \<^verbatim>\<open>value\<close> (\<open>isr_value\<close> here), which keep their content from one
  invocation to the next.
\<close>

record isr_hw =
  g_ledc_left_duty_val :: "32 word"
  g_ledc_left_conf0_val :: "32 word"
  g_ledc_left_conf1_val :: "32 word"
  g_ledc_right_duty_val :: "32 word"
  g_ledc_right_conf0_val :: "32 word"
  g_ledc_right_conf1_val :: "32 word"
  wave_h :: "8 word"
  wave_l :: "8 word"
  isr_value :: "16 word"

text \<open>
  What one invocation does to the outside: the duty values it hands to the two actuators
  and the semaphore it gives, in the order of the calls.
\<close>

datatype isr_event = Left_duty "32 word" | Right_duty "32 word" | Semaphore_give

text \<open>The events that hand a duty value to the left actuator.\<close>

fun is_left_duty :: "isr_event \<Rightarrow> bool" where
  "is_left_duty (Left_duty _) = True"
| "is_left_duty _ = False"

definition ledc_set_left_duty_fast :: "32 word \<Rightarrow> isr_hw \<Rightarrow> isr_hw" where
  "ledc_set_left_duty_fast duty_val hw =
     hw\<lparr>g_ledc_left_duty_val := push_bit 4 duty_val,
        g_ledc_left_conf0_val := g_ledc_left_conf0_val hw OR 0x00000014,
        g_ledc_left_conf1_val := g_ledc_left_conf1_val hw OR 0x80000000\<rparr>"

definition ledc_set_right_duty_fast :: "32 word \<Rightarrow> isr_hw \<Rightarrow> isr_hw" where
  "ledc_set_right_duty_fast duty_val hw =
     hw\<lparr>g_ledc_right_duty_val := push_bit 4 duty_val,
        g_ledc_right_conf0_val := g_ledc_right_conf0_val hw OR 0x00000014,
        g_ledc_right_conf1_val := g_ledc_right_conf1_val hw OR 0x80000000\<rparr>"

text \<open>
  \<^verbatim>\<open>timer_group_isr\<close> in its three consecutive blocks: the left channel, the right
  channel, the semaphore. Each returns the events of the block, the session and the
  registers. Clearing the interrupt and re-enabling the alarm, at the entry of the
  handler, touch the timer's registers only.
\<close>

definition isr_left_channel ::
  "pwm_audio_handle \<Rightarrow> isr_hw \<Rightarrow> isr_event list \<times> pwm_audio_handle \<times> isr_hw" where
  "isr_left_channel handle hw =
     (if channel_mask handle AND CHANNEL_LEFT_MASK \<noteq> 0 then
        (if duty_resolution handle > 8 then
           (let (r1, wl, rb1) = rb_read_byte (ringbuf handle) (wave_l hw);
                (r2, wh, rb2) = rb_read_byte rb1 (wave_h hw);
                hw1 = hw\<lparr>wave_l := wl, wave_h := wh\<rparr>
            in if r2 = ESP_OK then
                 (let v = push_bit 8 (ucast wh) OR ucast wl;
                      hw2 = hw1\<lparr>isr_value := v\<rparr>
                  in ([Left_duty (ucast v)], handle\<lparr>ringbuf := rb2\<rparr>,
                      ledc_set_left_duty_fast (ucast v) hw2))
               else ([], handle\<lparr>ringbuf := rb2\<rparr>, hw1))
         else
           (let (r, wh, rb1) = rb_read_byte (ringbuf handle) (wave_h hw);
                hw1 = hw\<lparr>wave_h := wh\<rparr>
            in if r = ESP_OK then
                 ([Left_duty (ucast wh)], handle\<lparr>ringbuf := rb1\<rparr>,
                  ledc_set_left_duty_fast (ucast wh) hw1)
               else ([], handle\<lparr>ringbuf := rb1\<rparr>, hw1)))
      else ([], handle, hw))"

definition isr_right_channel ::
  "pwm_audio_handle \<Rightarrow> isr_hw \<Rightarrow> isr_event list \<times> pwm_audio_handle \<times> isr_hw" where
  "isr_right_channel handle hw =
     (if channel_mask handle AND CHANNEL_RIGHT_MASK \<noteq> 0 then
        (if channel_set_num handle = 1 then
           (if duty_resolution handle > 8 then
              ([Right_duty (ucast (isr_value hw))], handle,
               ledc_set_right_duty_fast (ucast (isr_value hw)) hw)
            else
              ([Right_duty (ucast (wave_h hw))], handle,
               ledc_set_right_duty_fast (ucast (wave_h hw)) hw))
         else
           (if duty_resolution handle > 8 then
              (let (r1, wl, rb1) = rb_read_byte (ringbuf handle) (wave_l hw);
                   (r2, wh, rb2) = rb_read_byte rb1 (wave_h hw);
                   hw1 = hw\<lparr>wave_l := wl, wave_h := wh\<rparr>
               in if r2 = ESP_OK then
                    (let v = push_bit 8 (ucast wh) OR ucast wl;
                         hw2 = hw1\<lparr>isr_value := v\<rparr>
                     in ([Right_duty (ucast v)], handle\<lparr>ringbuf := rb2\<rparr>,
                         ledc_set_right_duty_fast (ucast v) hw2))
                  else ([], handle\<lparr>ringbuf := rb2\<rparr>, hw1))
            else
              (let (r, wh, rb1) = rb_read_byte (ringbuf handle) (wave_h hw);
                   hw1 = hw\<lparr>wave_h := wh\<rparr>
               in if r = ESP_OK then
                    ([Right_duty (ucast wh)], handle\<lparr>ringbuf := rb1\<rparr>,
                     ledc_set_right_duty_fast (ucast wh) hw1)
                  else ([], handle\<lparr>ringbuf := rb1\<rparr>, hw1))))
      else
        (if channel_set_num handle = 2 then
           (let (wh1, rb1) =
                  (if duty_resolution handle > 8 then
                     (let (r1, wh', rb') = rb_read_byte (ringbuf handle) (wave_h hw);
                          (r2, wh'', rb'') = rb_read_byte rb' wh'
                      in (wh'', rb''))
                   else
                     (let (r1, wh', rb') = rb_read_byte (ringbuf handle) (wave_h hw)
                      in (wh', rb')));
                (r3, wl, rb2) = rb_read_byte rb1 (wave_l hw)
            in ([], handle\<lparr>ringbuf := rb2\<rparr>, hw\<lparr>wave_h := wh1, wave_l := wl\<rparr>))
         else ([], handle, hw)))"

definition isr_give_semaphore ::
  "pwm_audio_handle \<Rightarrow> isr_hw \<Rightarrow> isr_event list \<times> pwm_audio_handle \<times> isr_hw" where
  "isr_give_semaphore handle hw =
     (if 0 = is_give (ringbuf handle) \<and> rb_get_free (ringbuf handle) > BUFFER_MIN_SIZE then
        ([Semaphore_give], handle\<lparr>ringbuf := (ringbuf handle)\<lparr>is_give := 1\<rparr>\<rparr>, hw)
      else ([], handle, hw))"

text \<open>The handler on \<^verbatim>\<open>g_pwm_audio_handle\<close>, \<open>None\<close> when the pointer is null.\<close>

definition timer_group_isr ::
  "pwm_audio_handle option \<Rightarrow> isr_hw \<Rightarrow> isr_event list \<times> pwm_audio_handle option \<times> isr_hw" where
  "timer_group_isr g_pwm_audio_handle hw =
     (case g_pwm_audio_handle of
        None \<Rightarrow> ([], None, hw)
      | Some handle \<Rightarrow>
          (let (e1, handle1, hw1) = isr_left_channel handle hw;
               (e2, handle2, hw2) = isr_right_channel handle1 hw1;
               (e3, handle3, hw3) = isr_give_semaphore handle2 hw2
           in (e1 @ e2 @ e3, Some handle3, hw3)))"

section \<open>The producer and the handler together\<close>

text \<open>
  The steps of the system on one session: an invocation of the interrupt handler, an
  entry of the producer into \<^verbatim>\<open>rb_wait_semaphore\<close> (with the outcome of its take), and a
  \<^verbatim>\<open>rb_write_byte\<close> of the producer. An invocation of the handler is one step: the
  producer task does not run inside it. The invocations that happen while
  \<^verbatim>\<open>xSemaphoreTake\<close> blocks are the handler steps that follow the wait step; the return
  of the take changes nothing in the session. A schedule is a list of such steps;
  running it gives the label of every step and the final state.
\<close>

datatype sys_input = Run_isr | Producer_wait bool | Producer_write "8 word"

datatype sys_label = Isr "isr_event list" | Wait bool | Wrote esp_err_t

fun sys_step ::
  "sys_input \<Rightarrow> pwm_audio_handle \<times> isr_hw \<Rightarrow> sys_label \<times> pwm_audio_handle \<times> isr_hw" where
  "sys_step Run_isr (handle, hw) =
     (case timer_group_isr (Some handle) hw of
        (evs, Some handle', hw') \<Rightarrow> (Isr evs, handle', hw')
      | (evs, None, hw') \<Rightarrow> (Isr evs, handle, hw'))"
| "sys_step (Producer_wait taken) (handle, hw) =
     (let (r, rb) = rb_wait_semaphore (ringbuf handle) taken
      in (Wait (r = ESP_OK), handle\<lparr>ringbuf := rb\<rparr>, hw))"
| "sys_step (Producer_write b) (handle, hw) =
     (let (r, rb) = rb_write_byte (ringbuf handle) b
      in (Wrote r, handle\<lparr>ringbuf := rb\<rparr>, hw))"

fun sys_run ::
  "sys_input list \<Rightarrow> pwm_audio_handle \<times> isr_hw \<Rightarrow> sys_label list \<times> pwm_audio_handle \<times> isr_hw" where
  "sys_run [] st = ([], st)"
| "sys_run (i # is) st =
     (let (l, st') = sys_step i st;
          (ls, st'') = sys_run is st'
      in (l # ls, st''))"

fun is_wake :: "sys_label \<Rightarrow> bool" where
  "is_wake (Isr evs) = (Semaphore_give \<in> set evs)"
| "is_wake _ = False"

fun is_rearm :: "sys_label \<Rightarrow> bool" where
  "is_rearm (Wait _) = True"
| "is_rearm _ = False"

text \<open>What the handler did to the outside in a step: nothing in a step of the producer.\<close>

fun isr_events :: "sys_label \<Rightarrow> isr_event list" where
  "isr_events (Isr evs) = evs"
| "isr_events _ = []"

section \<open>Properties of the ring buffer\<close>


lemma unat_rb_get_count:
  "rb_idx_ok rb \<Longrightarrow> unat (rb_get_count rb) =
     (if unat (tail rb) \<le> unat (head rb) then unat (head rb) - unat (tail rb)
      else unat (size_rb rb) - (unat (tail rb) - unat (head rb)))"
  unfolding rb_idx_ok_def rb_get_count_def Let_def
  by (auto simp: word_le_nat_alt word_less_nat_alt unat_sub)

lemma rb_count_lt: "rb_idx_ok rb \<Longrightarrow> unat (rb_get_count rb) < unat (size_rb rb)"
  by (auto simp: unat_rb_get_count) (auto simp: rb_idx_ok_def word_less_nat_alt)

lemma unat_rb_get_free:
  "rb_idx_ok rb \<Longrightarrow> unat (rb_get_free rb) = unat (size_rb rb) - unat (rb_get_count rb) - 1"
  using rb_count_lt[of rb] unfolding rb_get_free_def
  by (simp add: unat_sub word_le_nat_alt)

lemma rb_free_plus_count: "rb_get_free rb + rb_get_count rb = size_rb rb - 1"
  by (simp add: rb_get_free_def)

lemma unat_next_index:
  fixes i n :: "32 word"
  assumes "i < n"
  shows "unat (if i + 1 = n then 0 else i + 1) = (unat i + 1) mod unat n"
proof -
  from assms have lt: "unat i < unat n" by (simp add: word_less_nat_alt)
  have n32: "unat n < 2 ^ 32" using unsigned_less[of n, where 'a=nat] by simp
  have u: "unat (i + 1) = unat i + 1"
    using lt n32 by (simp add: unat_word_ariths)
  show ?thesis
  proof (cases "i + 1 = n")
    case True
    then have "unat i + 1 = unat n" using u by simp
    then show ?thesis using True by simp
  next
    case False
    then have "unat (i + 1) \<noteq> unat n" by (simp add: word_unat_eq_iff)
    then have "unat i + 1 < unat n" using lt u by simp
    then show ?thesis using False u by simp
  qed
qed

lemma next_index_eq_iff:
  fixes h t n :: nat
  assumes "h < n" "t < n"
  shows "(h + 1) mod n = t \<longleftrightarrow>
         (if t \<le> h then h - t else n - (t - h)) = n - 1"
proof (cases "h + 1 = n")
  case True
  then have "(h + 1) mod n = 0" by simp
  with True assms show ?thesis by auto
next
  case False
  with assms have "h + 1 < n" by simp
  then have "(h + 1) mod n = h + 1" by simp
  with assms \<open>h + 1 < n\<close> show ?thesis by auto
qed

lemma rb_write_byte_full_iff:
  assumes "rb_idx_ok rb"
  shows "fst (rb_write_byte rb b) = ESP_FAIL \<longleftrightarrow> rb_get_count rb = size_rb rb - 1"
proof -
  let ?h = "unat (head rb)" and ?t = "unat (tail rb)" and ?n = "unat (size_rb rb)"
  let ?nh = "if head rb + 1 = size_rb rb then 0 else head rb + 1"
  from assms have h: "?h < ?n" and t: "?t < ?n"
    by (simp_all add: rb_idx_ok_def word_less_nat_alt)
  have nh: "unat ?nh = (?h + 1) mod ?n"
    using assms by (intro unat_next_index) (simp add: rb_idx_ok_def)
  have "fst (rb_write_byte rb b) = ESP_FAIL \<longleftrightarrow> ?nh = tail rb"
    by (simp add: rb_write_byte_def Let_def)
  also have "\<dots> \<longleftrightarrow> unat ?nh = ?t"
    by (simp only: word_unat_eq_iff)
  also have "\<dots> \<longleftrightarrow> unat (rb_get_count rb) = ?n - 1"
    unfolding nh unat_rb_get_count[OF assms] by (rule next_index_eq_iff[OF h t])
  also have "\<dots> \<longleftrightarrow> rb_get_count rb = size_rb rb - 1"
  proof -
    have "unat (size_rb rb - 1) = ?n - 1"
      using h by (simp add: unat_sub word_le_nat_alt)
    then show ?thesis by (simp only: word_unat_eq_iff)
  qed
  finally show ?thesis .
qed

lemma next_index_less:
  fixes i n :: "32 word"
  assumes "i < n"
  shows "(if i + 1 = n then 0 else i + 1) < n"
proof -
  from assms have lt: "unat i < unat n" by (simp add: word_less_nat_alt)
  then have "(unat i + 1) mod unat n < unat n" by simp
  then show ?thesis
    unfolding unat_next_index[OF assms, symmetric] by (simp only: word_less_nat_alt)
qed

lemma rb_write_byte_idx_ok: "rb_idx_ok rb \<Longrightarrow> rb_idx_ok (snd (rb_write_byte rb b))"
  using next_index_less[of "head rb" "size_rb rb"]
  by (simp add: rb_idx_ok_def rb_write_byte_def Let_def)

lemma rb_read_byte_idx_ok: "rb_idx_ok rb \<Longrightarrow> rb_idx_ok (snd (snd (rb_read_byte rb out)))"
  using next_index_less[of "tail rb" "size_rb rb"]
  by (simp add: rb_idx_ok_def rb_read_byte_def Let_def)

lemma ring_index_last:
  fixes h t n :: nat
  assumes "h < n" "t < n"
  shows "(t + (if t \<le> h then h - t else n - (t - h))) mod n = h"
proof (cases "t \<le> h")
  case True
  with assms show ?thesis by simp
next
  case False
  with assms have "t + (n - (t - h)) = h + n" by simp
  with False assms show ?thesis by simp
qed

lemma ring_index_other:
  fixes h t n i :: nat
  assumes "h < n" "t < n" "i < (if t \<le> h then h - t else n - (t - h))"
  shows "(t + i) mod n \<noteq> h"
proof (cases "t + i < n")
  case True
  then have "(t + i) mod n = t + i" by simp
  with assms show ?thesis by (auto split: if_splits)
next
  case False
  then have "(t + i) mod n = (t + i - n) mod n"
    by (simp add: le_mod_geq)
  also have "t + i - n < n" using assms by (auto split: if_splits)
  then have "(t + i - n) mod n = t + i - n" by simp
  finally show ?thesis using assms False by (auto split: if_splits)
qed

lemma ring_count_write:
  fixes h t n :: nat
  assumes "h < n" "t < n" "(h + 1) mod n \<noteq> t"
  shows "(if t \<le> (h + 1) mod n then (h + 1) mod n - t else n - (t - (h + 1) mod n)) =
         (if t \<le> h then h - t else n - (t - h)) + 1"
proof (cases "h + 1 = n")
  case True
  then have m: "(h + 1) mod n = 0" by simp
  with assms have "t \<noteq> 0" by simp
  with True assms show ?thesis unfolding m by simp
next
  case False
  with assms have m: "(h + 1) mod n = h + 1" by simp
  with assms have "t \<noteq> h + 1" by simp
  with assms show ?thesis unfolding m by auto
qed

lemma ring_count_read:
  fixes h t n :: nat
  assumes "h < n" "t < n" "t \<noteq> h"
  shows "(if (t + 1) mod n \<le> h then h - (t + 1) mod n else n - ((t + 1) mod n - h)) =
         (if t \<le> h then h - t else n - (t - h)) - 1"
proof (cases "t + 1 = n")
  case True
  then have m: "(t + 1) mod n = 0" by simp
  with True assms show ?thesis unfolding m by auto
next
  case False
  with assms have m: "(t + 1) mod n = t + 1" by simp
  with assms show ?thesis unfolding m by auto
qed

lemma rb_write_byte_not_full:
  assumes inv: "rb_inv rb" and free: "rb_get_free rb \<noteq> 0"
  shows "fst (rb_write_byte rb b) = ESP_OK"
    and "rb_inv (snd (rb_write_byte rb b))"
    and "rb_contents (snd (rb_write_byte rb b)) = rb_contents rb @ [b]"
    and "unat (rb_get_count (snd (rb_write_byte rb b))) = unat (rb_get_count rb) + 1"
proof -
  let ?h = "unat (head rb)" and ?t = "unat (tail rb)" and ?n = "unat (size_rb rb)"
  let ?nh = "if head rb + 1 = size_rb rb then 0 else head rb + 1"
  let ?c = "unat (rb_get_count rb)"
  let ?rb = "rb\<lparr>buf := (buf rb)[?h := b], head := ?nh\<rparr>"
  from inv have idx: "rb_idx_ok rb" and len: "length (buf rb) = ?n"
    by (simp_all add: rb_inv_def)
  from idx have h: "?h < ?n" and t: "?t < ?n"
    by (simp_all add: rb_idx_ok_def word_less_nat_alt)
  have c: "?c = (if ?t \<le> ?h then ?h - ?t else ?n - (?t - ?h))"
    by (rule unat_rb_get_count[OF idx])
  have "rb_get_count rb \<noteq> size_rb rb - 1"
  proof
    assume "rb_get_count rb = size_rb rb - 1"
    then have "rb_get_free rb = 0" by (simp add: rb_get_free_def)
    with free show False by simp
  qed
  then have nf: "fst (rb_write_byte rb b) \<noteq> ESP_FAIL"
    by (simp only: rb_write_byte_full_iff[OF idx] not_False_eq_True)
  have neq: "?nh \<noteq> tail rb"
  proof
    assume "?nh = tail rb"
    then have "fst (rb_write_byte rb b) = ESP_FAIL"
      by (simp add: rb_write_byte_def Let_def)
    with nf show False by simp
  qed
  then have w: "rb_write_byte rb b = (ESP_OK, ?rb)"
    by (simp add: rb_write_byte_def Let_def)
  show "fst (rb_write_byte rb b) = ESP_OK" by (simp add: w)
  have idx': "rb_idx_ok ?rb"
    using rb_write_byte_idx_ok[OF idx, of b] by (simp only: w snd_conv)
  show "rb_inv (snd (rb_write_byte rb b))"
    using idx' len by (simp add: w rb_inv_def)
  have nh: "unat ?nh = (?h + 1) mod ?n"
    using idx by (intro unat_next_index) (simp add: rb_idx_ok_def)
  have "unat ?nh \<noteq> ?t"
    using neq by (simp only: word_unat_eq_iff not_False_eq_True)
  then have nfull: "(?h + 1) mod ?n \<noteq> ?t"
    by (simp only: nh not_False_eq_True)
  have c': "unat (rb_get_count ?rb) = ?c + 1"
  proof -
    have "unat (rb_get_count ?rb) =
          (if ?t \<le> (?h + 1) mod ?n then (?h + 1) mod ?n - ?t else ?n - (?t - (?h + 1) mod ?n))"
      using unat_rb_get_count[OF idx'] nh by simp
    also have "\<dots> = ?c + 1"
      unfolding c by (rule ring_count_write[OF h t nfull])
    finally show ?thesis .
  qed
  show "unat (rb_get_count (snd (rb_write_byte rb b))) = ?c + 1"
    using c' by (simp add: w)
  have last: "(?t + ?c) mod ?n = ?h"
    unfolding c by (rule ring_index_last[OF h t])
  have other: "?h \<noteq> (?t + i) mod ?n" if "i < ?c" for i
    using that unfolding c by (rule ring_index_other[OF h t, symmetric])
  have "rb_contents ?rb =
        map (\<lambda>i. (buf rb)[?h := b] ! ((?t + i) mod ?n)) [0..<?c] @
        [(buf rb)[?h := b] ! ((?t + ?c) mod ?n)]"
    by (simp add: rb_contents_def c')
  also have "map (\<lambda>i. (buf rb)[?h := b] ! ((?t + i) mod ?n)) [0..<?c] = rb_contents rb"
    unfolding rb_contents_def using other by (intro map_cong refl nth_list_update_neq) simp
  also have "(buf rb)[?h := b] ! ((?t + ?c) mod ?n) = b"
    using h len by (simp add: last)
  finally show "rb_contents (snd (rb_write_byte rb b)) = rb_contents rb @ [b]"
    by (simp add: w)
qed

lemma rb_read_byte_not_empty:
  assumes inv: "rb_inv rb" and ne: "head rb \<noteq> tail rb"
  shows "fst (rb_read_byte rb out) = ESP_OK"
    and "rb_inv (snd (snd (rb_read_byte rb out)))"
    and "rb_contents rb = fst (snd (rb_read_byte rb out)) # rb_contents (snd (snd (rb_read_byte rb out)))"
    and "unat (rb_get_count (snd (snd (rb_read_byte rb out)))) = unat (rb_get_count rb) - 1"
    and "rb_get_count rb \<noteq> 0"
proof -
  let ?h = "unat (head rb)" and ?t = "unat (tail rb)" and ?n = "unat (size_rb rb)"
  let ?nt = "if tail rb + 1 = size_rb rb then 0 else tail rb + 1"
  let ?c = "unat (rb_get_count rb)"
  let ?rb = "rb\<lparr>tail := ?nt\<rparr>"
  from inv have idx: "rb_idx_ok rb" and len: "length (buf rb) = ?n"
    by (simp_all add: rb_inv_def)
  from idx have h: "?h < ?n" and t: "?t < ?n"
    by (simp_all add: rb_idx_ok_def word_less_nat_alt)
  have c: "?c = (if ?t \<le> ?h then ?h - ?t else ?n - (?t - ?h))"
    by (rule unat_rb_get_count[OF idx])
  have r: "rb_read_byte rb out = (ESP_OK, buf rb ! ?t, ?rb)"
    using ne by (simp add: rb_read_byte_def Let_def)
  show "fst (rb_read_byte rb out) = ESP_OK" by (simp add: r)
  have idx': "rb_idx_ok ?rb"
    using rb_read_byte_idx_ok[OF idx, of out] by (simp only: r snd_conv)
  show "rb_inv (snd (snd (rb_read_byte rb out)))"
    using idx' len by (simp add: r rb_inv_def)
  have nt: "unat ?nt = (?t + 1) mod ?n"
    using idx by (intro unat_next_index) (simp add: rb_idx_ok_def)
  have tne: "?t \<noteq> ?h"
    using ne by (simp add: word_unat_eq_iff)
  have cpos: "0 < ?c"
    unfolding c using h t tne by auto
  then show "rb_get_count rb \<noteq> 0" by (auto simp: word_unat_eq_iff)
  have c': "unat (rb_get_count ?rb) = ?c - 1"
  proof -
    have "unat (rb_get_count ?rb) =
          (if (?t + 1) mod ?n \<le> ?h then ?h - (?t + 1) mod ?n else ?n - ((?t + 1) mod ?n - ?h))"
      using unat_rb_get_count[OF idx'] nt by simp
    also have "\<dots> = ?c - 1"
      unfolding c by (rule ring_count_read[OF h t tne])
    finally show ?thesis .
  qed
  show "unat (rb_get_count (snd (snd (rb_read_byte rb out)))) = ?c - 1"
    using c' by (simp add: r)
  have shift: "(Suc ?t mod ?n + i) mod ?n = Suc (?t + i) mod ?n" for i
    by (simp add: mod_simps)
  obtain k where k: "?c = Suc k"
    using cpos by (cases ?c) simp_all
  have "[0..<Suc k] = 0 # map Suc [0..<k]"
    by (simp only: map_Suc_upt upt_conv_Cons[OF zero_less_Suc])
  then have "rb_contents rb = map (\<lambda>i. buf rb ! ((?t + i) mod ?n)) (0 # map Suc [0..<?c - 1])"
    unfolding rb_contents_def k by simp
  also have "\<dots> = buf rb ! ?t # map (\<lambda>i. buf rb ! ((?t + Suc i) mod ?n)) [0..<?c - 1]"
    using t by (simp add: comp_def)
  also have "map (\<lambda>i. buf rb ! ((?t + Suc i) mod ?n)) [0..<?c - 1] = rb_contents ?rb"
    by (simp add: rb_contents_def c' nt shift)
  finally show "rb_contents rb =
      fst (snd (rb_read_byte rb out)) # rb_contents (snd (snd (rb_read_byte rb out)))"
    by (simp add: r)
qed

lemma rb_read_byte_empty:
  "head rb = tail rb \<Longrightarrow> rb_read_byte rb out = (ESP_FAIL, out, rb)"
  by (simp add: rb_read_byte_def)

lemma rb_contents_empty: "head rb = tail rb \<Longrightarrow> rb_contents rb = []"
  by (simp add: rb_contents_def rb_get_count_def)

lemma rb_write_byte_size: "size_rb (snd (rb_write_byte rb b)) = size_rb rb"
  by (simp add: rb_write_byte_def Let_def)

lemma rb_read_byte_size: "size_rb (snd (snd (rb_read_byte rb out))) = size_rb rb"
  by (simp add: rb_read_byte_def Let_def)

lemma rb_write_byte_length: "length (buf (snd (rb_write_byte rb b))) = length (buf rb)"
  by (simp add: rb_write_byte_def Let_def)

lemma rb_read_byte_buf: "buf (snd (snd (rb_read_byte rb out))) = buf rb"
  by (simp add: rb_read_byte_def Let_def)

lemma rb_flush_idx_ok: "rb_idx_ok rb \<Longrightarrow> rb_idx_ok (snd (rb_flush rb))"
proof -
  assume "rb_idx_ok rb"
  then have "head rb < size_rb rb" by (simp add: rb_idx_ok_def)
  then have "0 < size_rb rb" by (simp add: word_less_nat_alt)
  then show ?thesis by (simp add: rb_idx_ok_def rb_flush_def)
qed

lemma rb_apply_size: "size_rb (rb_apply op rb) = size_rb rb"
  by (cases op) (simp_all add: rb_write_byte_size rb_read_byte_size rb_flush_def)

lemma rb_apply_idx_ok: "rb_idx_ok rb \<Longrightarrow> rb_idx_ok (rb_apply op rb)"
  by (cases op) (simp_all add: rb_write_byte_idx_ok rb_read_byte_idx_ok rb_flush_idx_ok)

lemma rb_apply_length: "length (buf (rb_apply op rb)) = length (buf rb)"
  by (cases op) (simp_all add: rb_write_byte_length rb_read_byte_buf rb_flush_def)

lemma rb_run_size: "size_rb (rb_run ops rb) = size_rb rb"
  unfolding rb_run_def by (induction ops arbitrary: rb) (simp_all add: rb_apply_size)

lemma rb_run_length: "length (buf (rb_run ops rb)) = length (buf rb)"
  unfolding rb_run_def by (induction ops arbitrary: rb) (simp_all add: rb_apply_length)

lemma rb_run_idx_ok: "rb_idx_ok rb \<Longrightarrow> rb_idx_ok (rb_run ops rb)"
  unfolding rb_run_def by (induction ops arbitrary: rb) (simp_all add: rb_apply_idx_ok)

text \<open>
  Claim C1. Start from an empty ring buffer with both indices at 0 and a size above 1, and
  run any sequence of \<^verbatim>\<open>rb_write_byte\<close> and \<^verbatim>\<open>rb_read_byte\<close> calls (flushes are
  allowed as well). In the state reached, \<^verbatim>\<open>rb_get_free() + rb_get_count()\<close> is
  \<^verbatim>\<open>size - 1\<close>, as 32-bit words and as numbers without wrap-around, and a further
  \<^verbatim>\<open>rb_write_byte\<close> fails exactly when the count is \<^verbatim>\<open>size - 1\<close>, which is exactly when
  the next head equals the tail; a failed call leaves the buffer as it was (nothing stored,
  head not advanced), and any other call returns \<^verbatim>\<open>ESP_OK\<close>, stores the byte at the head
  and advances the head.
\<close>

theorem rb_capacity_invariant:
  assumes start: "head rb0 = 0" "tail rb0 = 0" and size: "1 < size_rb rb0"
  shows "let rb = rb_run ops rb0 in
           rb_get_free rb + rb_get_count rb = size_rb rb - 1 \<and>
           unat (rb_get_free rb) + unat (rb_get_count rb) = unat (size_rb rb) - 1 \<and>
           size_rb rb = size_rb rb0 \<and>
           (fst (rb_write_byte rb b) = ESP_FAIL \<longleftrightarrow> rb_get_count rb = size_rb rb - 1) \<and>
           (fst (rb_write_byte rb b) = ESP_FAIL \<longleftrightarrow>
              (if head rb + 1 = size_rb rb then 0 else head rb + 1) = tail rb) \<and>
           (fst (rb_write_byte rb b) \<noteq> ESP_FAIL \<longleftrightarrow> fst (rb_write_byte rb b) = ESP_OK) \<and>
           snd (rb_write_byte rb b) =
             (if fst (rb_write_byte rb b) = ESP_FAIL then rb
              else rb\<lparr>buf := (buf rb)[unat (head rb) := b],
                      head := (if head rb + 1 = size_rb rb then 0 else head rb + 1)\<rparr>)"
proof -
  define rb where "rb = rb_run ops rb0"
  have "rb_idx_ok rb0"
    using start size by (simp add: rb_idx_ok_def word_less_nat_alt)
  then have idx: "rb_idx_ok rb"
    unfolding rb_def by (rule rb_run_idx_ok)
  have sz: "size_rb rb = size_rb rb0"
    unfolding rb_def by (rule rb_run_size)
  have sum: "rb_get_free rb + rb_get_count rb = size_rb rb - 1"
    by (rule rb_free_plus_count)
  have usum: "unat (rb_get_free rb) + unat (rb_get_count rb) = unat (size_rb rb) - 1"
    using rb_count_lt[OF idx] by (simp add: unat_rb_get_free[OF idx])
  have full: "fst (rb_write_byte rb b) = ESP_FAIL \<longleftrightarrow> rb_get_count rb = size_rb rb - 1"
    by (rule rb_write_byte_full_iff[OF idx])
  have nxt: "fst (rb_write_byte rb b) = ESP_FAIL \<longleftrightarrow>
             (if head rb + 1 = size_rb rb then 0 else head rb + 1) = tail rb"
    by (simp add: rb_write_byte_def Let_def)
  have ok: "fst (rb_write_byte rb b) \<noteq> ESP_FAIL \<longleftrightarrow> fst (rb_write_byte rb b) = ESP_OK"
    by (simp add: rb_write_byte_def Let_def)
  have res: "snd (rb_write_byte rb b) =
             (if fst (rb_write_byte rb b) = ESP_FAIL then rb
              else rb\<lparr>buf := (buf rb)[unat (head rb) := b],
                      head := (if head rb + 1 = size_rb rb then 0 else head rb + 1)\<rparr>)"
    by (simp add: rb_write_byte_def Let_def)
  from sum usum sz full nxt ok res show ?thesis
    unfolding rb_def[symmetric] Let_def by blast
qed

theorem rb_capacity_invariant_witness:
  "rb_get_count (rb_run [Write_byte 1, Write_byte 2, Read_byte, Write_byte 3, Write_byte 4]
       \<lparr>buf = [0, 0, 0, 0], head = 0, tail = 0, size_rb = 4, is_give = 0\<rparr>) = 3 \<and>
   rb_get_free (rb_run [Write_byte 1, Write_byte 2, Read_byte, Write_byte 3, Write_byte 4]
       \<lparr>buf = [0, 0, 0, 0], head = 0, tail = 0, size_rb = 4, is_give = 0\<rparr>) = 0 \<and>
   rb_write_byte (rb_run [Write_byte 1, Write_byte 2, Read_byte, Write_byte 3, Write_byte 4]
       \<lparr>buf = [0, 0, 0, 0], head = 0, tail = 0, size_rb = 4, is_give = 0\<rparr>) 5 =
     (ESP_FAIL, \<lparr>buf = [1, 2, 3, 4], head = 0, tail = 1, size_rb = 4, is_give = 0\<rparr>)"
  using rb_capacity_invariant [of "\<lparr>buf = [0, 0, 0, 0], head = 0, tail = 0, size_rb = 4, is_give = 0\<rparr>"
      "[Write_byte 1, Write_byte 2, Read_byte, Write_byte 3, Write_byte 4]" 5]
  by (simp add: rb_run_def rb_write_byte_def rb_read_byte_def rb_get_count_def rb_get_free_def Let_def)

lemma rb_create_inv:
  assumes "rb_create sz alloc_ok junk = Some rb"
  shows "rb_inv rb" "head rb = 0" "tail rb = 0" "1024 \<le> size_rb rb" "size_rb rb = sz" "is_give rb = 0"
proof -
  from assms have ge: "\<not> sz < 1024" and
    rb: "rb = \<lparr>buf = map junk [0..<unat sz], head = 0, tail = 0, size_rb = sz, is_give = 0\<rparr>"
    by (auto simp: rb_create_def BUFFER_MIN_SIZE_def split: if_splits)
  from ge have "0 < sz" by (simp add: word_less_nat_alt word_le_nat_alt)
  then show "rb_inv rb" by (simp add: rb rb_inv_def rb_idx_ok_def)
  show "head rb = 0" "tail rb = 0" "size_rb rb = sz" "is_give rb = 0" by (simp_all add: rb)
  show "1024 \<le> size_rb rb" using ge by (simp add: rb)
qed

text \<open>
  Claim C10. A ring buffer that \<^verbatim>\<open>rb_create\<close> returns has both indices at 0 and a size
  of at least 1024. After any sequence of \<^verbatim>\<open>rb_write_byte\<close>, \<^verbatim>\<open>rb_read_byte\<close> and
  \<^verbatim>\<open>rb_flush\<close> calls, head and tail are below the size, the size is unchanged and is
  the length of the storage: \<^verbatim>\<open>buf[head]\<close> and \<^verbatim>\<open>buf[tail]\<close> lie inside the storage.
\<close>

theorem rb_indices_in_bounds:
  assumes "rb_create sz alloc_ok junk = Some rb0"
  shows "head rb0 = 0 \<and> tail rb0 = 0 \<and> 1024 \<le> size_rb rb0 \<and>
         (let rb = rb_run ops rb0 in
            head rb < size_rb rb \<and> tail rb < size_rb rb \<and> size_rb rb = size_rb rb0 \<and>
            length (buf rb) = unat (size_rb rb) \<and>
            unat (head rb) < length (buf rb) \<and> unat (tail rb) < length (buf rb))"
proof -
  note c = rb_create_inv[OF assms]
  define rb where "rb = rb_run ops rb0"
  from c(1) have "rb_idx_ok rb0" and len0: "length (buf rb0) = unat (size_rb rb0)"
    by (simp_all add: rb_inv_def)
  then have idx: "rb_idx_ok rb"
    unfolding rb_def by (intro rb_run_idx_ok)
  have sz: "size_rb rb = size_rb rb0"
    unfolding rb_def by (rule rb_run_size)
  have len: "length (buf rb) = unat (size_rb rb)"
    using len0 sz unfolding rb_def by (simp add: rb_run_length)
  from idx have h: "head rb < size_rb rb" and t: "tail rb < size_rb rb"
    by (simp_all add: rb_idx_ok_def)
  then have "unat (head rb) < length (buf rb)" "unat (tail rb) < length (buf rb)"
    by (simp_all add: len word_less_nat_alt)
  with c h t sz len show ?thesis
    unfolding rb_def[symmetric] Let_def by simp
qed

theorem rb_indices_in_bounds_witness:
  "rb_create 1024 True (\<lambda>_. 0) =
     Some \<lparr>buf = map (\<lambda>_. 0) [0..<1024], head = 0, tail = 0, size_rb = 1024, is_give = 0\<rparr> \<and>
   head (rb_run [Write_byte 7, Write_byte 8, Read_byte, Flush, Write_byte 9]
      \<lparr>buf = map (\<lambda>_. 0) [0..<1024], head = 0, tail = 0, size_rb = 1024, is_give = 0\<rparr>) = 1 \<and>
   tail (rb_run [Write_byte 7, Write_byte 8, Read_byte, Flush, Write_byte 9]
      \<lparr>buf = map (\<lambda>_. 0) [0..<1024], head = 0, tail = 0, size_rb = 1024, is_give = 0\<rparr>) = 0 \<and>
   length (buf (rb_run [Write_byte 7, Write_byte 8, Read_byte, Flush, Write_byte 9]
      \<lparr>buf = map (\<lambda>_. 0) [0..<1024], head = 0, tail = 0, size_rb = 1024, is_give = 0\<rparr>)) = 1024"
proof -
  have c: "rb_create 1024 True (\<lambda>_. 0) =
     Some \<lparr>buf = map (\<lambda>_. 0) [0..<1024], head = 0, tail = 0, size_rb = 1024, is_give = 0\<rparr>"
    by (simp add: rb_create_def BUFFER_MIN_SIZE_def)
  show ?thesis
    using rb_indices_in_bounds [OF c, of "[Write_byte 7, Write_byte 8, Read_byte, Flush, Write_byte 9]"] c
    by (simp add: rb_run_def rb_write_byte_def rb_read_byte_def rb_flush_def Let_def)
qed


section \<open>The control functions in the Busy state\<close>

text \<open>
  Claim C7 as stated fails: in the Busy state \<^verbatim>\<open>pwm_audio_set_param\<close> returns
  \<^verbatim>\<open>ESP_ERR_INVALID_ARG\<close>, not \<^verbatim>\<open>ESP_ERR_INVALID_STATE\<close>.
\<close>

theorem set_param_busy_invalid_state_counterexample:
  "fst (pwm_audio_set_param 16000 8 2
     \<lparr>duty_resolution = 8,
      ringbuf = \<lparr>buf = replicate 1024 0, head = 0, tail = 0, size_rb = 1024, is_give = 0\<rparr>,
      channel_mask = 3, channel_set_num = 2, framerate = 16000, bits_per_sample = 8,
      status = PWM_AUDIO_STATUS_BUSY\<rparr>) = ESP_ERR_INVALID_ARG \<and>
   fst (pwm_audio_set_param 16000 8 2
     \<lparr>duty_resolution = 8,
      ringbuf = \<lparr>buf = replicate 1024 0, head = 0, tail = 0, size_rb = 1024, is_give = 0\<rparr>,
      channel_mask = 3, channel_set_num = 2, framerate = 16000, bits_per_sample = 8,
      status = PWM_AUDIO_STATUS_BUSY\<rparr>) \<noteq> ESP_ERR_INVALID_STATE"
  by (simp add: pwm_audio_set_param_def)

text \<open>
  Claim C7, amended. In the Busy state \<^verbatim>\<open>pwm_audio_set_param\<close> returns the
  invalid-argument error \<^verbatim>\<open>ESP_ERR_INVALID_ARG\<close> and leaves the session (framerate,
  bits per sample, channel number and all the rest) unchanged; \<^verbatim>\<open>pwm_audio_start\<close> in
  the Busy state returns \<^verbatim>\<open>ESP_ERR_INVALID_STATE\<close> and changes nothing; and of two
  calls of \<^verbatim>\<open>pwm_audio_start\<close> in a row, from any state, the second returns
  \<^verbatim>\<open>ESP_ERR_INVALID_STATE\<close> and changes nothing.
\<close>

theorem busy_state_gating:
  assumes "status handle = PWM_AUDIO_STATUS_BUSY"
  shows "pwm_audio_set_param rate bits ch handle = (ESP_ERR_INVALID_ARG, handle) \<and>
         pwm_audio_start timer_res handle = (ESP_ERR_INVALID_STATE, handle) \<and>
         fst (pwm_audio_start timer_res' (snd (pwm_audio_start timer_res any_handle))) =
           ESP_ERR_INVALID_STATE \<and>
         snd (pwm_audio_start timer_res' (snd (pwm_audio_start timer_res any_handle))) =
           snd (pwm_audio_start timer_res any_handle)"
  using assms by (simp add: pwm_audio_set_param_def pwm_audio_start_def)

theorem busy_state_gating_witness:
  "pwm_audio_set_param 44100 16 1
     \<lparr>duty_resolution = 8,
      ringbuf = \<lparr>buf = replicate 1024 0, head = 0, tail = 0, size_rb = 1024, is_give = 0\<rparr>,
      channel_mask = 3, channel_set_num = 2, framerate = 16000, bits_per_sample = 8,
      status = PWM_AUDIO_STATUS_BUSY\<rparr> =
   (ESP_ERR_INVALID_ARG,
     \<lparr>duty_resolution = 8,
      ringbuf = \<lparr>buf = replicate 1024 0, head = 0, tail = 0, size_rb = 1024, is_give = 0\<rparr>,
      channel_mask = 3, channel_set_num = 2, framerate = 16000, bits_per_sample = 8,
      status = PWM_AUDIO_STATUS_BUSY\<rparr>) \<and>
   fst (pwm_audio_start ESP_OK (snd (pwm_audio_start ESP_OK
     \<lparr>duty_resolution = 8,
      ringbuf = \<lparr>buf = replicate 1024 0, head = 0, tail = 0, size_rb = 1024, is_give = 0\<rparr>,
      channel_mask = 3, channel_set_num = 2, framerate = 16000, bits_per_sample = 8,
      status = PWM_AUDIO_STATUS_IDLE\<rparr>))) = ESP_ERR_INVALID_STATE"
  using busy_state_gating [where handle =
     "\<lparr>duty_resolution = 8,
      ringbuf = \<lparr>buf = replicate 1024 0, head = 0, tail = 0, size_rb = 1024, is_give = 0\<rparr>,
      channel_mask = 3, channel_set_num = 2, framerate = 16000, bits_per_sample = 8,
      status = PWM_AUDIO_STATUS_BUSY\<rparr>" and rate = 44100 and bits = 16 and ch = 1
      and timer_res = ESP_OK and timer_res' = ESP_OK and any_handle =
     "\<lparr>duty_resolution = 8,
      ringbuf = \<lparr>buf = replicate 1024 0, head = 0, tail = 0, size_rb = 1024, is_give = 0\<rparr>,
      channel_mask = 3, channel_set_num = 2, framerate = 16000, bits_per_sample = 8,
      status = PWM_AUDIO_STATUS_IDLE\<rparr>"]
  by simp

section \<open>The interrupt handler with the right channel disabled\<close>

text \<open>
  Claim C2 at a concrete input: a stereo session (channel number 2) whose ring buffer holds
  eight bytes. At duty resolution 10 one invocation of the handler moves the tail by 5
  when only the left channel is enabled and by 4 when both are; at duty resolution 8 it
  moves the tail by 3 and by 2. The branch that discards the right channel's data reads
  one byte more than the branch that plays it (the extra \<^verbatim>\<open>rb_read_byte(.., &wave_l)\<close>
  after the discarding reads).
\<close>

theorem isr_right_disabled_drains_one_byte_more:
  "map_option (\<lambda>h. (tail (ringbuf h), rb_get_count (ringbuf h)))
     (fst (snd (timer_group_isr
        (Some \<lparr>duty_resolution = 10,
          ringbuf = \<lparr>buf = [1, 2, 3, 4, 5, 6, 7, 8] @ replicate 1016 0, head = 8, tail = 0,
                     size_rb = 1024, is_give = 1\<rparr>,
          channel_mask = 1, channel_set_num = 2, framerate = 16000, bits_per_sample = 16,
          status = PWM_AUDIO_STATUS_BUSY\<rparr>)
        \<lparr>g_ledc_left_duty_val = 0, g_ledc_left_conf0_val = 0, g_ledc_left_conf1_val = 0,
         g_ledc_right_duty_val = 0, g_ledc_right_conf0_val = 0, g_ledc_right_conf1_val = 0,
         wave_h = 0, wave_l = 0, isr_value = 0\<rparr>))) = Some (5, 3) \<and>
   map_option (\<lambda>h. (tail (ringbuf h), rb_get_count (ringbuf h)))
     (fst (snd (timer_group_isr
        (Some \<lparr>duty_resolution = 10,
          ringbuf = \<lparr>buf = [1, 2, 3, 4, 5, 6, 7, 8] @ replicate 1016 0, head = 8, tail = 0,
                     size_rb = 1024, is_give = 1\<rparr>,
          channel_mask = 3, channel_set_num = 2, framerate = 16000, bits_per_sample = 16,
          status = PWM_AUDIO_STATUS_BUSY\<rparr>)
        \<lparr>g_ledc_left_duty_val = 0, g_ledc_left_conf0_val = 0, g_ledc_left_conf1_val = 0,
         g_ledc_right_duty_val = 0, g_ledc_right_conf0_val = 0, g_ledc_right_conf1_val = 0,
         wave_h = 0, wave_l = 0, isr_value = 0\<rparr>))) = Some (4, 4) \<and>
   map_option (\<lambda>h. (tail (ringbuf h), rb_get_count (ringbuf h)))
     (fst (snd (timer_group_isr
        (Some \<lparr>duty_resolution = 8,
          ringbuf = \<lparr>buf = [1, 2, 3, 4, 5, 6, 7, 8] @ replicate 1016 0, head = 8, tail = 0,
                     size_rb = 1024, is_give = 1\<rparr>,
          channel_mask = 1, channel_set_num = 2, framerate = 16000, bits_per_sample = 8,
          status = PWM_AUDIO_STATUS_BUSY\<rparr>)
        \<lparr>g_ledc_left_duty_val = 0, g_ledc_left_conf0_val = 0, g_ledc_left_conf1_val = 0,
         g_ledc_right_duty_val = 0, g_ledc_right_conf0_val = 0, g_ledc_right_conf1_val = 0,
         wave_h = 0, wave_l = 0, isr_value = 0\<rparr>))) = Some (3, 5) \<and>
   map_option (\<lambda>h. (tail (ringbuf h), rb_get_count (ringbuf h)))
     (fst (snd (timer_group_isr
        (Some \<lparr>duty_resolution = 8,
          ringbuf = \<lparr>buf = [1, 2, 3, 4, 5, 6, 7, 8] @ replicate 1016 0, head = 8, tail = 0,
                     size_rb = 1024, is_give = 1\<rparr>,
          channel_mask = 3, channel_set_num = 2, framerate = 16000, bits_per_sample = 8,
          status = PWM_AUDIO_STATUS_BUSY\<rparr>)
        \<lparr>g_ledc_left_duty_val = 0, g_ledc_left_conf0_val = 0, g_ledc_left_conf1_val = 0,
         g_ledc_right_duty_val = 0, g_ledc_right_conf0_val = 0, g_ledc_right_conf1_val = 0,
         wave_h = 0, wave_l = 0, isr_value = 0\<rparr>))) = Some (2, 6)"
  by (simp add: timer_group_isr_def isr_left_channel_def isr_right_channel_def
      isr_give_semaphore_def rb_read_byte_def rb_get_count_def rb_get_free_def
      CHANNEL_LEFT_MASK_def CHANNEL_RIGHT_MASK_def BUFFER_MIN_SIZE_def
      ledc_set_left_duty_fast_def ledc_set_right_duty_fast_def Let_def)


section \<open>Properties of the producer\<close>

lemma rb_write_byte_frame:
  "is_give (snd (rb_write_byte rb b)) = is_give rb" "tail (snd (rb_write_byte rb b)) = tail rb"
  by (simp_all add: rb_write_byte_def Let_def)

lemma rb_write_bytes_fit:
  assumes "rb_inv rb" "length bs \<le> unat (rb_get_free rb)"
  shows "fst (rb_write_bytes rb bs) = replicate (length bs) ESP_OK
       \<and> rb_inv (snd (rb_write_bytes rb bs))
       \<and> rb_contents (snd (rb_write_bytes rb bs)) = rb_contents rb @ bs
       \<and> unat (rb_get_count (snd (rb_write_bytes rb bs))) = unat (rb_get_count rb) + length bs
       \<and> size_rb (snd (rb_write_bytes rb bs)) = size_rb rb
       \<and> is_give (snd (rb_write_bytes rb bs)) = is_give rb
       \<and> tail (snd (rb_write_bytes rb bs)) = tail rb"
  using assms
proof (induction bs arbitrary: rb)
  case Nil
  then show ?case by simp
next
  case (Cons b bs)
  let ?rb = "snd (rb_write_byte rb b)"
  from Cons.prems have free: "rb_get_free rb \<noteq> 0"
    by (auto simp: word_unat_eq_iff)
  note w = rb_write_byte_not_full[OF Cons.prems(1) free, of b]
  from Cons.prems(1) have idx: "rb_idx_ok rb" by (simp add: rb_inv_def)
  from w(2) have idx': "rb_idx_ok ?rb" by (simp add: rb_inv_def)
  have sz: "size_rb ?rb = size_rb rb" by (rule rb_write_byte_size)
  have "unat (rb_get_free ?rb) = unat (rb_get_free rb) - 1"
    by (simp add: unat_rb_get_free[OF idx] unat_rb_get_free[OF idx'] w(4) sz)
  with Cons.prems(2) have fit: "length bs \<le> unat (rb_get_free ?rb)" by simp
  note ih = Cons.IH[OF w(2) fit]
  have split: "rb_write_bytes rb (b # bs) =
      (fst (rb_write_byte rb b) # fst (rb_write_bytes ?rb bs), snd (rb_write_bytes ?rb bs))"
    by (simp add: case_prod_unfold Let_def)
  show ?case
    unfolding split using ih w(1) w(3) w(4) sz rb_write_byte_frame[of rb b] by simp
qed

lemma rb_wait_semaphore_frame:
  "fst (rb_wait_semaphore rb taken) = (if taken then ESP_OK else ESP_FAIL)"
  "rb_inv (snd (rb_wait_semaphore rb taken)) = rb_inv rb"
  "rb_contents (snd (rb_wait_semaphore rb taken)) = rb_contents rb"
  "rb_get_free (snd (rb_wait_semaphore rb taken)) = rb_get_free rb"
  "rb_get_count (snd (rb_wait_semaphore rb taken)) = rb_get_count rb"
  "is_give (snd (rb_wait_semaphore rb taken)) = 0"
  by (simp_all add: rb_wait_semaphore_def rb_inv_def rb_idx_ok_def rb_contents_def
      rb_get_free_def rb_get_count_def Let_def)

lemma length_concat_const:
  assumes "\<And>x. length (f x) = k"
  shows "length (concat (map f xs)) = k * length xs"
  by (induction xs) (simp_all add: assms)

lemma length_samples:
  "length (sample_8_wide sh b) = 2" "length (sample_8 b) = 1"
  "length (sample_16_wide sh w) = 2" "length (sample_16 sh w) = 1"
  "length (sample_32_wide sh v) = 2" "length (sample_32 sh v) = 1"
  by (simp_all add: sample_8_wide_def sample_8_def sample_16_wide_def sample_16_def
      sample_32_wide_def sample_32_def Let_def)

lemma length_pwm_audio_convert:
  "length (fst (pwm_audio_convert handle inbuf bcw)) =
     (if bits_per_sample handle = 8 then
        (if int8 (8 - duty_resolution handle) < 0 then 2 * (unat bcw div 2) else unat bcw)
      else if bits_per_sample handle = 16 then
        (if duty_resolution handle > 8 then 2 * (unat bcw div 2) else unat bcw div 2)
      else if bits_per_sample handle = 32 then
        (if duty_resolution handle > 8 then 2 * (unat bcw div 4) else unat bcw div 4)
      else 0)"
  by (simp add: pwm_audio_convert_def Let_def length_concat_const[OF length_samples(1)]
      length_concat_const[OF length_samples(2)] length_concat_const[OF length_samples(3)]
      length_concat_const[OF length_samples(4)] length_concat_const[OF length_samples(5)]
      length_concat_const[OF length_samples(6)] unat_drop_bit_eq drop_bit_eq_div unat_div)

lemma length_pwm_audio_convert_le:
  "length (fst (pwm_audio_convert handle inbuf bcw)) \<le> unat bcw"
proof -
  have "2 * (unat bcw div 2) \<le> unat bcw" "unat bcw div 2 \<le> unat bcw"
    "2 * (unat bcw div 4) \<le> unat bcw" "unat bcw div 4 \<le> unat bcw"
    by arith+
  then show ?thesis unfolding length_pwm_audio_convert by simp
qed

lemma snd_pwm_audio_convert:
  "snd (pwm_audio_convert handle inbuf bcw) =
     (if bits_per_sample handle = 8 \<and> int8 (8 - duty_resolution handle) < 0
      then drop_bit 1 bcw else bcw)"
  by (simp add: pwm_audio_convert_def Let_def)

lemma bytes_can_write_of_le:
  "bytes_can_write_of inbuf_len free \<le> free" "bytes_can_write_of inbuf_len free \<le> inbuf_len"
proof -
  let ?m = "if inbuf_len > free then free else inbuf_len"
  have "bytes_can_write_of inbuf_len free = ?m AND 0xfffffffc"
    by (simp add: bytes_can_write_of_def Let_def)
  moreover have "?m AND 0xfffffffc \<le> ?m" by (rule word_and_le2)
  moreover have "?m \<le> free" "?m \<le> inbuf_len" by auto
  ultimately show "bytes_can_write_of inbuf_len free \<le> free"
    "bytes_can_write_of inbuf_len free \<le> inbuf_len"
    by (simp_all only: order_trans)
qed

lemma fffffffc_eq_not_mask: "(0xfffffffc :: 32 word) = NOT (mask 2)"
  by (simp add: mask_numeral)

lemma and_not_mask_2: "(x :: 32 word) AND NOT (mask 2) = push_bit 2 (drop_bit 2 x)"
proof (rule bit_word_eqI)
  fix n
  have "Suc (Suc (n - 2)) = n" if "2 \<le> n"
    using that by arith
  then show "bit (x AND NOT (mask 2)) n \<longleftrightarrow> bit (push_bit 2 (drop_bit 2 x)) n"
    by (cases "2 \<le> n") (auto simp: bit_simps)
qed

lemma unat_push_drop_2: "unat (push_bit 2 (drop_bit 2 (x :: 32 word))) = 4 * (unat x div 4)"
proof -
  have "unat (push_bit 2 (drop_bit 2 x)) = take_bit 32 (push_bit 2 (drop_bit 2 (unat x)))"
    by (simp add: unsigned_push_bit_eq unat_drop_bit_eq)
  also have "push_bit 2 (drop_bit 2 (unat x)) = 4 * (unat x div 4)"
    by (simp add: push_bit_eq_mult drop_bit_eq_div)
  also have "take_bit 32 (4 * (unat x div 4)) = 4 * (unat x div 4)"
  proof (rule take_bit_nat_eq_self)
    have "4 * (unat x div 4) \<le> unat x" by arith
    also have "unat x < 2 ^ 32" using unsigned_less[of x, where 'a=nat] by simp
    finally show "4 * (unat x div 4) < 2 ^ 32" .
  qed
  finally show ?thesis .
qed

lemma unat_and_fffffffc:
  "unat ((x :: 32 word) AND 0xfffffffc) = 4 * (unat x div 4)"
  unfolding fffffffc_eq_not_mask and_not_mask_2 by (rule unat_push_drop_2)

text \<open>
  Claim C9. In one iteration of the \<^verbatim>\<open>while\<close> loop of \<^verbatim>\<open>pwm_audio_write\<close> whose wait
  succeeded, with no read from the ring buffer in between: for every value of
  \<^verbatim>\<open>bits_per_sample\<close> and \<^verbatim>\<open>duty_resolution\<close>, the bytes the conversion loop passes to
  \<^verbatim>\<open>rb_write_byte\<close> are at most \<^verbatim>\<open>bytes_can_write\<close> as computed from
  \<^verbatim>\<open>rb_get_free\<close> at the start of the iteration, which is at most the free space; every
  one of the calls returns \<^verbatim>\<open>ESP_OK\<close>, none \<^verbatim>\<open>ESP_FAIL\<close>, and the bytes are appended
  to the content of the buffer.
\<close>

theorem conversion_never_fills_buffer:
  assumes "rb_inv (ringbuf handle)"
  shows "let rb = snd (rb_wait_semaphore (ringbuf handle) True);
             free = rb_get_free rb;
             bytes_can_write = bytes_can_write_of inbuf_len free;
             bs = fst (pwm_audio_convert handle inbuf bytes_can_write)
         in length bs \<le> unat bytes_can_write \<and> bytes_can_write \<le> free \<and>
            fst (rb_write_bytes rb bs) = replicate (length bs) ESP_OK \<and>
            ESP_FAIL \<notin> set (fst (rb_write_bytes rb bs)) \<and>
            rb_contents (snd (rb_write_bytes rb bs)) = rb_contents rb @ bs"
proof -
  define rb where "rb = snd (rb_wait_semaphore (ringbuf handle) True)"
  define free where "free = rb_get_free rb"
  define bcw where "bcw = bytes_can_write_of inbuf_len free"
  define bs where "bs = fst (pwm_audio_convert handle inbuf bcw)"
  have inv: "rb_inv rb"
    using assms by (simp add: rb_def rb_wait_semaphore_frame)
  have len: "length bs \<le> unat bcw"
    unfolding bs_def by (rule length_pwm_audio_convert_le)
  have le: "bcw \<le> free"
    unfolding bcw_def by (rule bytes_can_write_of_le)
  then have "unat bcw \<le> unat (rb_get_free rb)"
    by (simp add: free_def word_le_nat_alt)
  with len have fit: "length bs \<le> unat (rb_get_free rb)" by simp
  note w = rb_write_bytes_fit[OF inv fit]
  from w have ok: "fst (rb_write_bytes rb bs) = replicate (length bs) ESP_OK"
    and cont: "rb_contents (snd (rb_write_bytes rb bs)) = rb_contents rb @ bs"
    by simp_all
  have "ESP_FAIL \<notin> set (fst (rb_write_bytes rb bs))"
    unfolding ok by simp
  with len le ok cont show ?thesis
    unfolding rb_def[symmetric] free_def[symmetric] bcw_def[symmetric] bs_def[symmetric] Let_def
    by simp
qed

theorem conversion_never_fills_buffer_witness:
  "rb_inv \<lparr>buf = replicate 1024 0, head = 5, tail = 10, size_rb = 1024, is_give = 1\<rparr> \<and>
   rb_get_free \<lparr>buf = replicate 1024 0, head = 5, tail = 10, size_rb = 1024, is_give = 1\<rparr> = 4 \<and>
   bytes_can_write_of 9 4 = 4 \<and>
   fst (pwm_audio_convert
     \<lparr>duty_resolution = 10,
      ringbuf = \<lparr>buf = replicate 1024 0, head = 5, tail = 10, size_rb = 1024, is_give = 1\<rparr>,
      channel_mask = 3, channel_set_num = 2, framerate = 16000, bits_per_sample = 16,
      status = PWM_AUDIO_STATUS_BUSY\<rparr> [0, 0x80, 0xff, 0x7f, 1, 0, 0xff, 0xff, 9] 4) = [255, 3, 255, 3] \<and>
   fst (rb_write_bytes \<lparr>buf = replicate 1024 0, head = 5, tail = 10, size_rb = 1024, is_give = 0\<rparr>
      [255, 3, 255, 3]) = [ESP_OK, ESP_OK, ESP_OK, ESP_OK]"
  using conversion_never_fills_buffer [of
     "\<lparr>duty_resolution = 10,
      ringbuf = \<lparr>buf = replicate 1024 0, head = 5, tail = 10, size_rb = 1024, is_give = 1\<rparr>,
      channel_mask = 3, channel_set_num = 2, framerate = 16000, bits_per_sample = 16,
      status = PWM_AUDIO_STATUS_BUSY\<rparr>" 9 "[0, 0x80, 0xff, 0x7f, 1, 0, 0xff, 0xff, 9]"]
  by (simp add: rb_inv_def rb_idx_ok_def rb_get_free_def rb_get_count_def bytes_can_write_of_def
      pwm_audio_convert_def int8_def sample_16_wide_def buf_16b_def rb_wait_semaphore_def
      rb_write_byte_def Let_def upt_rec)

text \<open>
  Whenever the loop of \<^verbatim>\<open>pwm_audio_write\<close> returns, the count it reports is the whole
  requested length: the loop has no exit with a shorter count.
\<close>

lemma pwm_audio_write_loop_count:
  "pwm_audio_write_loop handle inbuf inbuf_len bytes_written res waits = Some (r, n, handle')
   \<Longrightarrow> n = bytes_written + inbuf_len"
proof (induction waits arbitrary: handle inbuf inbuf_len bytes_written res)
  case Nil
  then show ?case by (simp split: if_splits)
next
  case (Cons taken waits)
  show ?case
  proof (cases "inbuf_len = 0")
    case True
    with Cons.prems show ?thesis by simp
  next
    case False
    show ?thesis
    proof (cases taken)
      case True
      let ?rb = "snd (rb_wait_semaphore (ringbuf handle) True)"
      let ?bcw = "bytes_can_write_of inbuf_len (rb_get_free ?rb)"
      show ?thesis
      proof (cases "?bcw = 0")
        case z: True
        with Cons.prems False True show ?thesis
          by (simp add: rb_wait_semaphore_def Let_def)
      next
        case nz: False
        let ?c = "snd (pwm_audio_convert handle inbuf ?bcw)"
        from Cons.prems False True nz
        have "\<exists>h i. pwm_audio_write_loop h i (inbuf_len - ?c) (bytes_written + ?c) res waits =
                 Some (r, n, handle')"
          by (auto simp: rb_wait_semaphore_def Let_def case_prod_unfold)
        then obtain h i where
          "pwm_audio_write_loop h i (inbuf_len - ?c) (bytes_written + ?c) res waits =
             Some (r, n, handle')" by blast
        from Cons.IH[OF this] show ?thesis by simp
      qed
    next
      case f: False
      with Cons.prems False
      have "pwm_audio_write_loop (handle\<lparr>ringbuf := snd (rb_wait_semaphore (ringbuf handle) False)\<rparr>)
              inbuf inbuf_len bytes_written ESP_FAIL waits = Some (r, n, handle')"
        by (simp add: rb_wait_semaphore_def Let_def)
      from Cons.IH[OF this] show ?thesis .
    qed
  qed
qed

text \<open>
  Claim C3 at a concrete input: eight bytes for an empty buffer. When the wait times out
  the call has not returned: the loop waits again, for any number of timeouts. When a
  later wait succeeds the call returns the failure status with the whole length as count
  (after writing all eight bytes), not with a count short of the requested length.
\<close>

theorem write_timeout_does_not_return:
  "pwm_audio_write
     \<lparr>duty_resolution = 8,
      ringbuf = \<lparr>buf = replicate 1024 0, head = 0, tail = 0, size_rb = 1024, is_give = 0\<rparr>,
      channel_mask = 3, channel_set_num = 2, framerate = 16000, bits_per_sample = 8,
      status = PWM_AUDIO_STATUS_BUSY\<rparr>
     (Some [1, 2, 3, 4, 5, 6, 7, 8]) 8 (Some 0) [False] = None \<and>
   pwm_audio_write
     \<lparr>duty_resolution = 8,
      ringbuf = \<lparr>buf = replicate 1024 0, head = 0, tail = 0, size_rb = 1024, is_give = 0\<rparr>,
      channel_mask = 3, channel_set_num = 2, framerate = 16000, bits_per_sample = 8,
      status = PWM_AUDIO_STATUS_BUSY\<rparr>
     (Some [1, 2, 3, 4, 5, 6, 7, 8]) 8 (Some 0) [False, False, False] = None \<and>
   map_option (\<lambda>(res, n, h). (res, n, rb_get_count (ringbuf h)))
     (pwm_audio_write
       \<lparr>duty_resolution = 8,
        ringbuf = \<lparr>buf = replicate 1024 0, head = 0, tail = 0, size_rb = 1024, is_give = 0\<rparr>,
        channel_mask = 3, channel_set_num = 2, framerate = 16000, bits_per_sample = 8,
        status = PWM_AUDIO_STATUS_BUSY\<rparr>
       (Some [1, 2, 3, 4, 5, 6, 7, 8]) 8 (Some 0) [False, True]) = Some (ESP_FAIL, Some 8, 8)"
  by (simp add: pwm_audio_write_def rb_wait_semaphore_def bytes_can_write_of_def
      pwm_audio_convert_def int8_def sample_8_def rb_write_byte_def rb_get_free_def
      rb_get_count_def Let_def upt_rec)



section \<open>The guard flag and the wakes\<close>

lemma rb_read_byte_is_give: "is_give (snd (snd (rb_read_byte rb out))) = is_give rb"
  by (simp add: rb_read_byte_def Let_def)

lemma isr_left_channel_guard:
  "is_give (ringbuf (fst (snd (isr_left_channel handle hw)))) = is_give (ringbuf handle)"
  "Semaphore_give \<notin> set (fst (isr_left_channel handle hw))"
  by (simp_all add: isr_left_channel_def Let_def case_prod_unfold rb_read_byte_is_give)

lemma isr_right_channel_guard:
  "is_give (ringbuf (fst (snd (isr_right_channel handle hw)))) = is_give (ringbuf handle)"
  "Semaphore_give \<notin> set (fst (isr_right_channel handle hw))"
  by (simp_all add: isr_right_channel_def Let_def case_prod_unfold rb_read_byte_is_give)

lemma isr_give_semaphore_guard:
  "fst (isr_give_semaphore handle hw) =
     (if is_give (ringbuf handle) = 0 \<and> BUFFER_MIN_SIZE < rb_get_free (ringbuf handle)
      then [Semaphore_give] else [])"
  "is_give (ringbuf (fst (snd (isr_give_semaphore handle hw)))) =
     (if is_give (ringbuf handle) = 0 \<and> BUFFER_MIN_SIZE < rb_get_free (ringbuf handle)
      then 1 else is_give (ringbuf handle))"
  by (auto simp: isr_give_semaphore_def)

text \<open>The session as the handler's two channel blocks leave it.\<close>

lemma timer_group_isr_unfold:
  "timer_group_isr (Some handle) hw =
     (let l = isr_left_channel handle hw;
          r = isr_right_channel (fst (snd l)) (snd (snd l));
          g = isr_give_semaphore (fst (snd r)) (snd (snd r))
      in (fst l @ fst r @ fst g, Some (fst (snd g)), snd (snd g)))"
  by (simp add: timer_group_isr_def Let_def case_prod_unfold)

lemma timer_group_isr_wake:
  "Semaphore_give \<in> set (fst (timer_group_isr (Some handle) hw)) \<longleftrightarrow>
     is_give (ringbuf handle) = 0 \<and>
     BUFFER_MIN_SIZE < rb_get_free (ringbuf (fst (snd (isr_right_channel
        (fst (snd (isr_left_channel handle hw))) (snd (snd (isr_left_channel handle hw)))))))"
  by (simp add: timer_group_isr_unfold Let_def isr_left_channel_guard isr_right_channel_guard
      isr_give_semaphore_guard)

lemma timer_group_isr_is_give:
  "map_option (\<lambda>h. is_give (ringbuf h)) (fst (snd (timer_group_isr (Some handle) hw))) =
     Some (if Semaphore_give \<in> set (fst (timer_group_isr (Some handle) hw)) then 1
           else is_give (ringbuf handle))"
  by (simp add: timer_group_isr_unfold Let_def isr_left_channel_guard isr_right_channel_guard
      isr_give_semaphore_guard)

lemma sys_step_Run_isr:
  "sys_step Run_isr (handle, hw) =
     (Isr (fst (timer_group_isr (Some handle) hw)),
      the (fst (snd (timer_group_isr (Some handle) hw))),
      snd (snd (timer_group_isr (Some handle) hw)))"
  by (simp add: timer_group_isr_unfold Let_def)

lemma sys_step_guard_set:
  assumes "is_wake (fst (sys_step i st))"
  shows "is_give (ringbuf (fst (snd (sys_step i st)))) \<noteq> 0"
proof (cases st)
  case (Pair handle hw)
  show ?thesis
  proof (cases i)
    case Run_isr
    with assms Pair have "Semaphore_give \<in> set (fst (timer_group_isr (Some handle) hw))"
      by (simp add: sys_step_Run_isr del: sys_step.simps(1))
    with timer_group_isr_is_give[of handle hw] show ?thesis
      unfolding Pair Run_isr sys_step_Run_isr
      by (cases "fst (snd (timer_group_isr (Some handle) hw))") auto
  next
    case (Producer_wait t)
    with assms Pair show ?thesis by (simp add: case_prod_unfold Let_def)
  next
    case (Producer_write b)
    with assms Pair show ?thesis by (simp add: case_prod_unfold Let_def)
  qed
qed

lemma sys_step_guard_kept:
  assumes "is_give (ringbuf (fst st)) \<noteq> 0" "\<not> is_rearm (fst (sys_step i st))"
  shows "is_give (ringbuf (fst (snd (sys_step i st)))) \<noteq> 0 \<and> \<not> is_wake (fst (sys_step i st))"
proof (cases st)
  case (Pair handle hw)
  show ?thesis
  proof (cases i)
    case Run_isr
    from assms Pair have g: "is_give (ringbuf handle) \<noteq> 0" by simp
    then have nw: "Semaphore_give \<notin> set (fst (timer_group_isr (Some handle) hw))"
      by (simp add: timer_group_isr_wake)
    with timer_group_isr_is_give[of handle hw] g show ?thesis
      unfolding Pair Run_isr sys_step_Run_isr
      by (cases "fst (snd (timer_group_isr (Some handle) hw))") auto
  next
    case (Producer_wait t)
    with assms Pair show ?thesis by (simp add: case_prod_unfold Let_def)
  next
    case (Producer_write b)
    with assms Pair show ?thesis by (simp add: case_prod_unfold rb_write_byte_def Let_def)
  qed
qed

lemma sys_run_Cons:
  "sys_run (i # is) st =
     (fst (sys_step i st) # fst (sys_run is (snd (sys_step i st))),
      snd (sys_run is (snd (sys_step i st))))"
  by (simp add: case_prod_unfold Let_def)

lemma length_sys_run: "length (fst (sys_run is st)) = length is"
  by (induction "is" arbitrary: st) (simp_all add: sys_run_Cons del: sys_run.simps(2))

lemma wake_needs_rearm:
  assumes "is_give (ringbuf (fst st)) \<noteq> 0" "j < length is" "is_wake (fst (sys_run is st) ! j)"
  shows "\<exists>k<j. is_rearm (fst (sys_run is st) ! k)"
  using assms
proof (induction "is" arbitrary: st j)
  case Nil
  then show ?case by simp
next
  case (Cons i "is")
  show ?case
  proof (cases "is_rearm (fst (sys_step i st))")
    case True
    have "j \<noteq> 0"
    proof
      assume "j = 0"
      with Cons.prems(3) have "is_wake (fst (sys_step i st))" by (simp add: sys_run_Cons del: sys_run.simps(2))
      with True show False by (cases "fst (sys_step i st)") simp_all
    qed
    with True show ?thesis by (intro exI[of _ 0]) (simp add: sys_run_Cons del: sys_run.simps(2))
  next
    case False
    note kept = sys_step_guard_kept[OF Cons.prems(1) False]
    show ?thesis
    proof (cases j)
      case 0
      with Cons.prems(3) kept show ?thesis by (simp add: sys_run_Cons del: sys_run.simps(2))
    next
      case (Suc j')
      with Cons.prems have "j' < length is" "is_wake (fst (sys_run is (snd (sys_step i st))) ! j')"
        by (simp_all add: sys_run_Cons del: sys_run.simps(2))
      with Cons.IH[of "snd (sys_step i st)" j'] kept
      obtain k where "k < j'" "is_rearm (fst (sys_run is (snd (sys_step i st))) ! k)"
        by auto
      then show ?thesis
        unfolding Suc by (intro exI[of _ "Suc k"]) (simp add: sys_run_Cons del: sys_run.simps(2))
    qed
  qed
qed

lemma wakes_separated:
  assumes "i < j" "j < length is" "is_wake (fst (sys_run is st) ! i)"
    "is_wake (fst (sys_run is st) ! j)"
  shows "\<exists>k. i < k \<and> k < j \<and> is_rearm (fst (sys_run is st) ! k)"
  using assms
proof (induction "is" arbitrary: st i j)
  case Nil
  then show ?case by simp
next
  case (Cons x xs)
  from Cons.prems(1) obtain j' where j: "j = Suc j'" by (cases j) simp_all
  show ?case
  proof (cases i)
    case 0
    with Cons.prems(3) have "is_wake (fst (sys_step x st))" by (simp add: sys_run_Cons del: sys_run.simps(2))
    then have g: "is_give (ringbuf (fst (snd (sys_step x st)))) \<noteq> 0"
      by (rule sys_step_guard_set)
    from Cons.prems j have "j' < length xs" "is_wake (fst (sys_run xs (snd (sys_step x st))) ! j')"
      by (simp_all add: sys_run_Cons del: sys_run.simps(2))
    from wake_needs_rearm[OF g this]
    obtain k where "k < j'" "is_rearm (fst (sys_run xs (snd (sys_step x st))) ! k)" by auto
    then show ?thesis
      unfolding 0 j by (intro exI[of _ "Suc k"]) (simp add: sys_run_Cons del: sys_run.simps(2))
  next
    case (Suc i')
    with Cons.prems j have "i' < j'" "j' < length xs"
      "is_wake (fst (sys_run xs (snd (sys_step x st))) ! i')"
      "is_wake (fst (sys_run xs (snd (sys_step x st))) ! j')"
      by (simp_all add: sys_run_Cons del: sys_run.simps(2))
    from Cons.IH[OF this]
    obtain k where "i' < k" "k < j'" "is_rearm (fst (sys_run xs (snd (sys_step x st))) ! k)"
      by auto
    then show ?thesis
      unfolding Suc j by (intro exI[of _ "Suc k"]) (simp add: sys_run_Cons del: sys_run.simps(2))
  qed
qed


lemma timer_group_isr_one_give:
  "count_list (fst (timer_group_isr (Some handle) hw)) Semaphore_give \<le> 1"
proof -
  have "count_list (fst (isr_left_channel h w)) Semaphore_give = 0" for h w
    using isr_left_channel_guard(2)[of h w] by (simp only: count_list_0_iff not_False_eq_True)
  moreover have "count_list (fst (isr_right_channel h w)) Semaphore_give = 0" for h w
    using isr_right_channel_guard(2)[of h w] by (simp only: count_list_0_iff not_False_eq_True)
  moreover have "count_list (fst (isr_give_semaphore h w)) Semaphore_give \<le> 1" for h w
    by (simp add: isr_give_semaphore_guard)
  ultimately show ?thesis
    by (simp add: timer_group_isr_unfold Let_def)
qed

text \<open>
  Claim C8. In every run of the system (invocations of the interrupt handler interleaved
  in any order with waits and writes of the producer, from any state), between two
  invocations that give the semaphore there is an entry of the producer into
  \<^verbatim>\<open>rb_wait_semaphore\<close>. An invocation gives the semaphore exactly when \<^verbatim>\<open>is_give\<close> is
  0 and \<^verbatim>\<open>rb_get_free\<close>, after the channels were served, exceeds
  \<^verbatim>\<open>BUFFER_MIN_SIZE\<close>; it then leaves \<^verbatim>\<open>is_give\<close> at 1 and otherwise leaves the flag as
  it was; it gives at most once; and \<^verbatim>\<open>rb_wait_semaphore\<close> clears \<^verbatim>\<open>is_give\<close> whatever
  the outcome of its take.
\<close>

theorem one_wake_per_guard_cycle:
  "(i < j \<and> j < length ins \<and> is_wake (fst (sys_run ins st) ! i) \<and>
      is_wake (fst (sys_run ins st) ! j) \<longrightarrow>
      (\<exists>k. i < k \<and> k < j \<and> is_rearm (fst (sys_run ins st) ! k))) \<and>
   (Semaphore_give \<in> set (fst (timer_group_isr (Some handle) hw)) \<longleftrightarrow>
      is_give (ringbuf handle) = 0 \<and>
      BUFFER_MIN_SIZE < rb_get_free (ringbuf (fst (snd (isr_right_channel
        (fst (snd (isr_left_channel handle hw))) (snd (snd (isr_left_channel handle hw)))))))) \<and>
   map_option (\<lambda>h. is_give (ringbuf h)) (fst (snd (timer_group_isr (Some handle) hw))) =
      Some (if Semaphore_give \<in> set (fst (timer_group_isr (Some handle) hw)) then 1
            else is_give (ringbuf handle)) \<and>
   count_list (fst (timer_group_isr (Some handle) hw)) Semaphore_give \<le> 1 \<and>
   is_give (snd (rb_wait_semaphore rb taken)) = 0"
proof (intro conjI impI)
  assume "i < j \<and> j < length ins \<and> is_wake (fst (sys_run ins st) ! i) \<and>
      is_wake (fst (sys_run ins st) ! j)"
  then show "\<exists>k. i < k \<and> k < j \<and> is_rearm (fst (sys_run ins st) ! k)"
    by (intro wakes_separated) simp_all
next
  show "Semaphore_give \<in> set (fst (timer_group_isr (Some handle) hw)) \<longleftrightarrow>
      is_give (ringbuf handle) = 0 \<and>
      BUFFER_MIN_SIZE < rb_get_free (ringbuf (fst (snd (isr_right_channel
        (fst (snd (isr_left_channel handle hw))) (snd (snd (isr_left_channel handle hw)))))))"
    by (rule timer_group_isr_wake)
  show "map_option (\<lambda>h. is_give (ringbuf h)) (fst (snd (timer_group_isr (Some handle) hw))) =
      Some (if Semaphore_give \<in> set (fst (timer_group_isr (Some handle) hw)) then 1
            else is_give (ringbuf handle))"
    by (rule timer_group_isr_is_give)
  show "count_list (fst (timer_group_isr (Some handle) hw)) Semaphore_give \<le> 1"
    by (rule timer_group_isr_one_give)
  show "is_give (snd (rb_wait_semaphore rb taken)) = 0"
    by (simp add: rb_wait_semaphore_def)
qed

theorem one_wake_per_guard_cycle_witness:
  "fst (sys_run [Run_isr, Run_isr, Producer_wait False, Run_isr]
     (\<lparr>duty_resolution = 8,
       ringbuf = \<lparr>buf = replicate 1024 0, head = 0, tail = 0, size_rb = 1024, is_give = 0\<rparr>,
       channel_mask = 3, channel_set_num = 2, framerate = 16000, bits_per_sample = 8,
       status = PWM_AUDIO_STATUS_BUSY\<rparr>,
      \<lparr>g_ledc_left_duty_val = 0, g_ledc_left_conf0_val = 0, g_ledc_left_conf1_val = 0,
       g_ledc_right_duty_val = 0, g_ledc_right_conf0_val = 0, g_ledc_right_conf1_val = 0,
       wave_h = 0, wave_l = 0, isr_value = 0\<rparr>)) =
     [Isr [Semaphore_give], Isr [], Wait False, Isr [Semaphore_give]] \<and>
   (\<exists>k. 0 < k \<and> k < 3 \<and> is_rearm (fst (sys_run [Run_isr, Run_isr, Producer_wait False, Run_isr]
     (\<lparr>duty_resolution = 8,
       ringbuf = \<lparr>buf = replicate 1024 0, head = 0, tail = 0, size_rb = 1024, is_give = 0\<rparr>,
       channel_mask = 3, channel_set_num = 2, framerate = 16000, bits_per_sample = 8,
       status = PWM_AUDIO_STATUS_BUSY\<rparr>,
      \<lparr>g_ledc_left_duty_val = 0, g_ledc_left_conf0_val = 0, g_ledc_left_conf1_val = 0,
       g_ledc_right_duty_val = 0, g_ledc_right_conf0_val = 0, g_ledc_right_conf1_val = 0,
       wave_h = 0, wave_l = 0, isr_value = 0\<rparr>)) ! k))"
proof -
  let ?ins = "[Run_isr, Run_isr, Producer_wait False, Run_isr]"
  let ?st = "(\<lparr>duty_resolution = 8,
       ringbuf = \<lparr>buf = replicate 1024 0, head = 0, tail = 0, size_rb = 1024, is_give = 0\<rparr>,
       channel_mask = 3, channel_set_num = 2, framerate = 16000, bits_per_sample = 8,
       status = PWM_AUDIO_STATUS_BUSY\<rparr>,
      \<lparr>g_ledc_left_duty_val = 0, g_ledc_left_conf0_val = 0, g_ledc_left_conf1_val = 0,
       g_ledc_right_duty_val = 0, g_ledc_right_conf0_val = 0, g_ledc_right_conf1_val = 0,
       wave_h = 0, wave_l = 0, isr_value = 0\<rparr>)"
  have run: "fst (sys_run ?ins ?st) = [Isr [Semaphore_give], Isr [], Wait False, Isr [Semaphore_give]]"
    by (simp add: timer_group_isr_def isr_left_channel_def isr_right_channel_def
        isr_give_semaphore_def rb_read_byte_def rb_get_free_def rb_get_count_def
        rb_wait_semaphore_def CHANNEL_LEFT_MASK_def CHANNEL_RIGHT_MASK_def BUFFER_MIN_SIZE_def
        Let_def)
  have "0 < (3::nat) \<and> 3 < length ?ins \<and> is_wake (fst (sys_run ?ins ?st) ! 0) \<and>
        is_wake (fst (sys_run ?ins ?st) ! 3)"
    unfolding run by simp
  with one_wake_per_guard_cycle [where i = 0 and j = 3 and ins = ?ins and st = ?st]
  have "\<exists>k. 0 < k \<and> k < 3 \<and> is_rearm (fst (sys_run ?ins ?st) ! k)"
    by blast
  with run show ?thesis by blast
qed



section \<open>The interrupt handler on a mono source with both channels\<close>

lemma rb_read_byte_contents:
  assumes "rb_inv rb" "rb_contents rb = x # xs"
  shows "fst (rb_read_byte rb out) = ESP_OK"
    and "fst (snd (rb_read_byte rb out)) = x"
    and "rb_inv (snd (snd (rb_read_byte rb out)))"
    and "rb_contents (snd (snd (rb_read_byte rb out))) = xs"
proof -
  have ne: "head rb \<noteq> tail rb"
    using assms(2) rb_contents_empty[of rb] by auto
  show "fst (rb_read_byte rb out) = ESP_OK"
    by (rule rb_read_byte_not_empty(1)[OF assms(1) ne])
  show "rb_inv (snd (snd (rb_read_byte rb out)))"
    by (rule rb_read_byte_not_empty(2)[OF assms(1) ne])
  from rb_read_byte_not_empty(3)[OF assms(1) ne, of out] assms(2) show "fst (snd (rb_read_byte rb out)) = x"
    and "rb_contents (snd (snd (rb_read_byte rb out))) = xs" by simp_all
qed

lemma isr_left_channel_wide:
  assumes mask: "channel_mask handle AND CHANNEL_LEFT_MASK \<noteq> 0"
    and res: "duty_resolution handle > 8"
    and inv: "rb_inv (ringbuf handle)"
    and cont: "rb_contents (ringbuf handle) = lo # hi # rest"
  shows "fst (isr_left_channel handle hw) = [Left_duty (ucast (push_bit 8 (ucast hi) OR ucast lo :: 16 word))]"
    and "rb_contents (ringbuf (fst (snd (isr_left_channel handle hw)))) = rest"
    and "rb_inv (ringbuf (fst (snd (isr_left_channel handle hw))))"
    and "snd (snd (isr_left_channel handle hw)) =
           ledc_set_left_duty_fast (ucast (push_bit 8 (ucast hi) OR ucast lo :: 16 word))
             (hw\<lparr>wave_l := lo, wave_h := hi, isr_value := push_bit 8 (ucast hi) OR ucast lo\<rparr>)"
    and "fst (snd (isr_left_channel handle hw)) =
           handle\<lparr>ringbuf := ringbuf (fst (snd (isr_left_channel handle hw)))\<rparr>"
proof -
  let ?r1 = "rb_read_byte (ringbuf handle) (wave_l hw)"
  let ?r2 = "rb_read_byte (snd (snd ?r1)) (wave_h hw)"
  note a = rb_read_byte_contents[OF inv cont, where out = "wave_l hw"]
  note b = rb_read_byte_contents[OF a(3) a(4), where out = "wave_h hw"]
  have l: "isr_left_channel handle hw =
      ([Left_duty (ucast (push_bit 8 (ucast hi) OR ucast lo :: 16 word))],
       handle\<lparr>ringbuf := snd (snd ?r2)\<rparr>,
       ledc_set_left_duty_fast (ucast (push_bit 8 (ucast hi) OR ucast lo :: 16 word))
         (hw\<lparr>wave_l := lo, wave_h := hi, isr_value := push_bit 8 (ucast hi) OR ucast lo\<rparr>))"
    using mask res a(1,2) b(1,2) by (simp add: isr_left_channel_def Let_def case_prod_unfold)
  show "fst (isr_left_channel handle hw) = [Left_duty (ucast (push_bit 8 (ucast hi) OR ucast lo :: 16 word))]"
    by (simp add: l)
  show "rb_contents (ringbuf (fst (snd (isr_left_channel handle hw)))) = rest"
    by (simp add: l b(4))
  show "rb_inv (ringbuf (fst (snd (isr_left_channel handle hw))))"
    by (simp add: l b(3))
  show "snd (snd (isr_left_channel handle hw)) =
           ledc_set_left_duty_fast (ucast (push_bit 8 (ucast hi) OR ucast lo :: 16 word))
             (hw\<lparr>wave_l := lo, wave_h := hi, isr_value := push_bit 8 (ucast hi) OR ucast lo\<rparr>)"
    by (simp add: l)
  show "fst (snd (isr_left_channel handle hw)) =
           handle\<lparr>ringbuf := ringbuf (fst (snd (isr_left_channel handle hw)))\<rparr>"
    by (simp add: l)
qed

lemma isr_left_channel_narrow:
  assumes mask: "channel_mask handle AND CHANNEL_LEFT_MASK \<noteq> 0"
    and res: "\<not> duty_resolution handle > 8"
    and inv: "rb_inv (ringbuf handle)"
    and cont: "rb_contents (ringbuf handle) = b # rest"
  shows "fst (isr_left_channel handle hw) = [Left_duty (ucast b)]"
    and "rb_contents (ringbuf (fst (snd (isr_left_channel handle hw)))) = rest"
    and "rb_inv (ringbuf (fst (snd (isr_left_channel handle hw))))"
    and "snd (snd (isr_left_channel handle hw)) =
           ledc_set_left_duty_fast (ucast b) (hw\<lparr>wave_h := b\<rparr>)"
    and "fst (snd (isr_left_channel handle hw)) =
           handle\<lparr>ringbuf := ringbuf (fst (snd (isr_left_channel handle hw)))\<rparr>"
proof -
  let ?r1 = "rb_read_byte (ringbuf handle) (wave_h hw)"
  note a = rb_read_byte_contents[OF inv cont, where out = "wave_h hw"]
  have l: "isr_left_channel handle hw =
      ([Left_duty (ucast b)], handle\<lparr>ringbuf := snd (snd ?r1)\<rparr>,
       ledc_set_left_duty_fast (ucast b) (hw\<lparr>wave_h := b\<rparr>))"
    using mask res a(1,2) by (simp add: isr_left_channel_def Let_def case_prod_unfold)
  show "fst (isr_left_channel handle hw) = [Left_duty (ucast b)]"
    by (simp add: l)
  show "rb_contents (ringbuf (fst (snd (isr_left_channel handle hw)))) = rest"
    by (simp add: l a(4))
  show "rb_inv (ringbuf (fst (snd (isr_left_channel handle hw))))"
    by (simp add: l a(3))
  show "snd (snd (isr_left_channel handle hw)) =
           ledc_set_left_duty_fast (ucast b) (hw\<lparr>wave_h := b\<rparr>)"
    by (simp add: l)
  show "fst (snd (isr_left_channel handle hw)) =
           handle\<lparr>ringbuf := ringbuf (fst (snd (isr_left_channel handle hw)))\<rparr>"
    by (simp add: l)
qed

lemma isr_right_channel_mono:
  assumes "channel_mask handle AND CHANNEL_RIGHT_MASK \<noteq> 0" "channel_set_num handle = 1"
  shows "isr_right_channel handle hw =
     (if duty_resolution handle > 8
      then ([Right_duty (ucast (isr_value hw))], handle,
            ledc_set_right_duty_fast (ucast (isr_value hw)) hw)
      else ([Right_duty (ucast (wave_h hw))], handle,
            ledc_set_right_duty_fast (ucast (wave_h hw)) hw))"
  using assms by (simp add: isr_right_channel_def)

lemma isr_left_channel_config:
  "channel_mask (fst (snd (isr_left_channel handle hw))) = channel_mask handle"
  "channel_set_num (fst (snd (isr_left_channel handle hw))) = channel_set_num handle"
  "duty_resolution (fst (snd (isr_left_channel handle hw))) = duty_resolution handle"
  by (simp_all add: isr_left_channel_def Let_def case_prod_unfold)

lemma filter_give_semaphore:
  "filter (\<lambda>e. e \<noteq> Semaphore_give) (fst (isr_give_semaphore handle hw)) = []"
  "ringbuf (fst (snd (isr_give_semaphore handle hw))) =
     (ringbuf handle)\<lparr>is_give := is_give (ringbuf (fst (snd (isr_give_semaphore handle hw))))\<rparr>"
  "snd (snd (isr_give_semaphore handle hw)) = hw"
  by (simp_all add: isr_give_semaphore_def)

lemma rb_contents_is_give: "rb_contents (rb\<lparr>is_give := g\<rparr>) = rb_contents rb"
  by (simp add: rb_contents_def rb_get_count_def Let_def)

lemma timer_group_isr_mono:
  assumes right: "channel_mask handle AND CHANNEL_RIGHT_MASK \<noteq> 0"
    and mono: "channel_set_num handle = 1"
  shows "timer_group_isr (Some handle) hw =
     (let l = isr_left_channel handle hw;
          v = (if duty_resolution handle > 8 then ucast (isr_value (snd (snd l)))
               else ucast (wave_h (snd (snd l))));
          g = isr_give_semaphore (fst (snd l)) (ledc_set_right_duty_fast v (snd (snd l)))
      in (fst l @ [Right_duty v] @ fst g, Some (fst (snd g)), snd (snd g)))"
proof -
  let ?l = "isr_left_channel handle hw"
  have right': "channel_mask (fst (snd ?l)) AND CHANNEL_RIGHT_MASK \<noteq> 0"
    and mono': "channel_set_num (fst (snd ?l)) = 1"
    using right mono by (simp_all add: isr_left_channel_config)
  show ?thesis
    by (simp add: timer_group_isr_unfold Let_def isr_right_channel_mono[OF right' mono']
        isr_left_channel_config)
qed

text \<open>
  Claim C6, amended. With source channel number 1 and both channels enabled in
  \<^verbatim>\<open>channel_mask\<close>: in every invocation the right-channel block leaves the session, and
  so the ring buffer, exactly as the left-channel block left it (it reads nothing); and in
  every invocation that finds the bytes of a left sample in the ring buffer (two at a duty
  resolution above 8, one otherwise), the handler hands the value \<open>v\<close> reconstructed
  from them to the left actuator and then the same \<open>v\<close> to the right actuator, consumes
  exactly those bytes, and leaves \<open>v << 4\<close> in both duty registers.
\<close>

theorem mono_right_duty_equals_left:
  assumes left: "channel_mask handle AND CHANNEL_LEFT_MASK \<noteq> 0"
    and right: "channel_mask handle AND CHANNEL_RIGHT_MASK \<noteq> 0"
    and mono: "channel_set_num handle = 1"
  shows "fst (snd (isr_right_channel (fst (snd (isr_left_channel handle hw)))
                    (snd (snd (isr_left_channel handle hw))))) =
           fst (snd (isr_left_channel handle hw)) \<and>
         (rb_inv (ringbuf handle) \<and> rb_contents (ringbuf handle) = bs @ rest \<and>
          length bs = (if duty_resolution handle > 8 then 2 else 1) \<longrightarrow>
          (let v = (if duty_resolution handle > 8
                    then ucast (push_bit 8 (ucast (bs ! 1)) OR ucast (bs ! 0) :: 16 word)
                    else ucast (bs ! 0));
               out = timer_group_isr (Some handle) hw
           in filter (\<lambda>e. e \<noteq> Semaphore_give) (fst out) = [Left_duty v, Right_duty v] \<and>
              map_option (\<lambda>h. rb_contents (ringbuf h)) (fst (snd out)) = Some rest \<and>
              g_ledc_left_duty_val (snd (snd out)) = push_bit 4 v \<and>
              g_ledc_right_duty_val (snd (snd out)) = push_bit 4 v))"
proof (intro conjI impI)
  let ?l = "isr_left_channel handle hw"
  have right': "channel_mask (fst (snd ?l)) AND CHANNEL_RIGHT_MASK \<noteq> 0"
    and mono': "channel_set_num (fst (snd ?l)) = 1"
    using right mono by (simp_all add: isr_left_channel_config)
  show "fst (snd (isr_right_channel (fst (snd ?l)) (snd (snd ?l)))) = fst (snd ?l)"
    unfolding isr_right_channel_mono[OF right' mono'] by simp
  assume a: "rb_inv (ringbuf handle) \<and> rb_contents (ringbuf handle) = bs @ rest \<and>
          length bs = (if duty_resolution handle > 8 then 2 else 1)"
  then have inv: "rb_inv (ringbuf handle)" by simp
  define v :: "32 word" where
    "v = (if duty_resolution handle > 8
          then ucast (push_bit 8 (ucast (bs ! 1)) OR ucast (bs ! 0) :: 16 word)
          else ucast (bs ! 0))"
  define g where
    "g = isr_give_semaphore (fst (snd ?l)) (ledc_set_right_duty_fast v (snd (snd ?l)))"
  have left_facts: "fst ?l = [Left_duty v] \<and>
      rb_contents (ringbuf (fst (snd ?l))) = rest \<and>
      g_ledc_left_duty_val (snd (snd ?l)) = push_bit 4 v \<and>
      (if duty_resolution handle > 8 then ucast (isr_value (snd (snd ?l)))
       else ucast (wave_h (snd (snd ?l)))) = v"
  proof (cases "duty_resolution handle > 8")
    case True
    with a obtain lo hi where bs: "bs = [lo, hi]"
      by (cases bs; cases "tl bs") auto
    with a have cont: "rb_contents (ringbuf handle) = lo # hi # rest" by simp
    note l = isr_left_channel_wide[OF left True inv cont, of hw]
    show ?thesis
      using True by (simp add: l(1,2,4) v_def bs ledc_set_left_duty_fast_def)
  next
    case False
    with a obtain b where bs: "bs = [b]"
      by (cases bs) auto
    with a have cont: "rb_contents (ringbuf handle) = b # rest" by simp
    note l = isr_left_channel_narrow[OF left False inv cont, of hw]
    show ?thesis
      using False by (simp add: l(1,2,4) v_def bs ledc_set_left_duty_fast_def)
  qed
  have out: "timer_group_isr (Some handle) hw =
      ([Left_duty v, Right_duty v] @ fst g, Some (fst (snd g)), snd (snd g))"
    using left_facts by (simp add: timer_group_isr_mono[OF right mono] Let_def g_def)
  have ev: "filter (\<lambda>e. e \<noteq> Semaphore_give) (fst (timer_group_isr (Some handle) hw)) =
      [Left_duty v, Right_duty v]"
    by (simp add: out g_def filter_give_semaphore(1))
  have "ringbuf (fst (snd g)) = (ringbuf (fst (snd ?l)))\<lparr>is_give := is_give (ringbuf (fst (snd g)))\<rparr>"
    unfolding g_def by (rule filter_give_semaphore(2))
  then have "rb_contents (ringbuf (fst (snd g))) = rb_contents (ringbuf (fst (snd ?l)))"
    by (metis rb_contents_is_give)
  with left_facts have cont': "rb_contents (ringbuf (fst (snd g))) = rest" by simp
  have hw': "snd (snd g) = ledc_set_right_duty_fast v (snd (snd ?l))"
    unfolding g_def by (rule filter_give_semaphore(3))
  have regs: "g_ledc_left_duty_val (snd (snd g)) = push_bit 4 v"
    "g_ledc_right_duty_val (snd (snd g)) = push_bit 4 v"
    using left_facts by (simp_all add: hw' ledc_set_right_duty_fast_def)
  show "let v = (if duty_resolution handle > 8
                    then ucast (push_bit 8 (ucast (bs ! 1)) OR ucast (bs ! 0) :: 16 word)
                    else ucast (bs ! 0));
               out = timer_group_isr (Some handle) hw
           in filter (\<lambda>e. e \<noteq> Semaphore_give) (fst out) = [Left_duty v, Right_duty v] \<and>
              map_option (\<lambda>h. rb_contents (ringbuf h)) (fst (snd out)) = Some rest \<and>
              g_ledc_left_duty_val (snd (snd out)) = push_bit 4 v \<and>
              g_ledc_right_duty_val (snd (snd out)) = push_bit 4 v"
    unfolding Let_def v_def[symmetric] using ev cont' regs by (simp add: out)
qed


theorem mono_right_duty_equals_left_witness:
  "fst (timer_group_isr
     (Some \<lparr>duty_resolution = 10,
       ringbuf = \<lparr>buf = [0x34, 0x02, 0x11, 0x01] @ replicate 1020 0, head = 4, tail = 0,
                  size_rb = 1024, is_give = 0\<rparr>,
       channel_mask = 3, channel_set_num = 1, framerate = 16000, bits_per_sample = 16,
       status = PWM_AUDIO_STATUS_BUSY\<rparr>)
     \<lparr>g_ledc_left_duty_val = 0, g_ledc_left_conf0_val = 0, g_ledc_left_conf1_val = 0,
      g_ledc_right_duty_val = 0, g_ledc_right_conf0_val = 0, g_ledc_right_conf1_val = 0,
      wave_h = 0, wave_l = 0, isr_value = 0\<rparr>) =
     [Left_duty 0x234, Right_duty 0x234, Semaphore_give] \<and>
   map_option (\<lambda>h. rb_contents (ringbuf h)) (fst (snd (timer_group_isr
     (Some \<lparr>duty_resolution = 10,
       ringbuf = \<lparr>buf = [0x34, 0x02, 0x11, 0x01] @ replicate 1020 0, head = 4, tail = 0,
                  size_rb = 1024, is_give = 0\<rparr>,
       channel_mask = 3, channel_set_num = 1, framerate = 16000, bits_per_sample = 16,
       status = PWM_AUDIO_STATUS_BUSY\<rparr>)
     \<lparr>g_ledc_left_duty_val = 0, g_ledc_left_conf0_val = 0, g_ledc_left_conf1_val = 0,
      g_ledc_right_duty_val = 0, g_ledc_right_conf0_val = 0, g_ledc_right_conf1_val = 0,
      wave_h = 0, wave_l = 0, isr_value = 0\<rparr>))) = Some [0x11, 0x01]"
  using mono_right_duty_equals_left [where handle =
      "\<lparr>duty_resolution = 10,
       ringbuf = \<lparr>buf = [0x34, 0x02, 0x11, 0x01] @ replicate 1020 0, head = 4, tail = 0,
                  size_rb = 1024, is_give = 0\<rparr>,
       channel_mask = 3, channel_set_num = 1, framerate = 16000, bits_per_sample = 16,
       status = PWM_AUDIO_STATUS_BUSY\<rparr>"
      and bs = "[0x34, 0x02]" and rest = "[0x11, 0x01]" and hw =
      "\<lparr>g_ledc_left_duty_val = 0, g_ledc_left_conf0_val = 0, g_ledc_left_conf1_val = 0,
      g_ledc_right_duty_val = 0, g_ledc_right_conf0_val = 0, g_ledc_right_conf1_val = 0,
      wave_h = 0, wave_l = 0, isr_value = 0\<rparr>"]
  by (simp add: timer_group_isr_def isr_left_channel_def isr_right_channel_def
      isr_give_semaphore_def rb_read_byte_def rb_get_free_def rb_get_count_def rb_contents_def
      rb_inv_def rb_idx_ok_def CHANNEL_LEFT_MASK_def CHANNEL_RIGHT_MASK_def BUFFER_MIN_SIZE_def
      ledc_set_left_duty_fast_def ledc_set_right_duty_fast_def Let_def upt_rec)

text \<open>
  Claim C6 as stated fails in an invocation that finds the ring buffer empty. A stereo
  session plays one frame (left 0x100, right 0x200); it is stopped, set to one channel
  with \<^verbatim>\<open>pwm_audio_set_param\<close> and started again. The next invocation, on the empty
  buffer, hands nothing to the left actuator and the stale \<^verbatim>\<open>value\<close> 0x200 to the right
  one: the duty registers hold 0x1000 and 0x2000.
\<close>

theorem mono_right_duty_without_left_counterexample:
  "(case timer_group_isr
      (Some \<lparr>duty_resolution = 10,
        ringbuf = \<lparr>buf = [0x00, 0x01, 0x00, 0x02] @ replicate 1020 0, head = 4, tail = 0,
                   size_rb = 1024, is_give = 0\<rparr>,
        channel_mask = 3, channel_set_num = 2, framerate = 16000, bits_per_sample = 16,
        status = PWM_AUDIO_STATUS_BUSY\<rparr>)
      \<lparr>g_ledc_left_duty_val = 0, g_ledc_left_conf0_val = 0, g_ledc_left_conf1_val = 0,
       g_ledc_right_duty_val = 0, g_ledc_right_conf0_val = 0, g_ledc_right_conf1_val = 0,
       wave_h = 0, wave_l = 0, isr_value = 0\<rparr> of
     (e1, Some h1, hw1) \<Rightarrow>
       (let h2 = snd (pwm_audio_stop h1);
            (r3, h3) = pwm_audio_set_param 16000 16 1 h2;
            (r4, h4) = pwm_audio_start ESP_OK h3;
            (e5, h5, hw5) = timer_group_isr (Some h4) hw1
        in (e1, r3, r4, channel_mask h4, channel_set_num h4, rb_get_count (ringbuf h4),
            e5, g_ledc_left_duty_val hw5, g_ledc_right_duty_val hw5))
   | (e1, None, hw1) \<Rightarrow> (e1, ESP_FAIL, ESP_FAIL, 0, 0, 0, [], 0, 0)) =
   ([Left_duty 0x100, Right_duty 0x200, Semaphore_give], ESP_OK, ESP_OK, 3, 1, 0,
    [Right_duty 0x200], 0x1000, 0x2000)"
  by (simp add: timer_group_isr_def isr_left_channel_def isr_right_channel_def
      isr_give_semaphore_def rb_read_byte_def rb_get_free_def rb_get_count_def rb_flush_def
      pwm_audio_stop_def pwm_audio_set_param_def pwm_audio_start_def
      SAMPLE_RATE_MAX_def SAMPLE_RATE_MIN_def
      CHANNEL_LEFT_MASK_def CHANNEL_RIGHT_MASK_def BUFFER_MIN_SIZE_def
      ledc_set_left_duty_fast_def ledc_set_right_duty_fast_def Let_def)



section \<open>Whole calls of pwm\_audio\_write\<close>

lemma pwm_audio_write_loop_taken:
  assumes nz: "inbuf_len \<noteq> 0"
  shows "pwm_audio_write_loop handle inbuf inbuf_len bw res (True # waits) =
     (let rb = (ringbuf handle)\<lparr>is_give := 0\<rparr>;
          bcw = bytes_can_write_of inbuf_len (rb_get_free (ringbuf handle))
      in if bcw = 0 then Some (ESP_OK, bw + inbuf_len, handle\<lparr>ringbuf := rb\<rparr>)
         else pwm_audio_write_loop
                (handle\<lparr>ringbuf := snd (rb_write_bytes rb (fst (pwm_audio_convert handle inbuf bcw)))\<rparr>)
                (drop (unat (snd (pwm_audio_convert handle inbuf bcw))) inbuf)
                (inbuf_len - snd (pwm_audio_convert handle inbuf bcw))
                (bw + snd (pwm_audio_convert handle inbuf bcw)) res waits)"
proof -
  have "rb_get_free ((ringbuf handle)\<lparr>is_give := 0\<rparr>) = rb_get_free (ringbuf handle)"
    by (simp add: rb_get_free_def rb_get_count_def Let_def)
  then show ?thesis
    using nz by (simp add: rb_wait_semaphore_def Let_def case_prod_unfold)
qed

lemma rb_inv_is_give: "rb_inv (rb\<lparr>is_give := g\<rparr>) = rb_inv rb"
  by (simp add: rb_inv_def rb_idx_ok_def)

lemma rb_get_free_is_give: "rb_get_free (rb\<lparr>is_give := g\<rparr>) = rb_get_free rb"
  by (simp add: rb_get_free_def rb_get_count_def Let_def)

lemma bytes_can_write_of_aligned_prefix:
  assumes "4 * (unat inbuf_len div 4) \<le> unat free"
  shows "bytes_can_write_of inbuf_len free = inbuf_len AND 0xfffffffc"
proof (cases "inbuf_len > free")
  case True
  then have lt: "unat free < unat inbuf_len" by (simp add: word_less_nat_alt)
  with assms have "unat free div 4 = unat inbuf_len div 4" by arith
  then have "unat (free AND 0xfffffffc) = unat (inbuf_len AND 0xfffffffc)"
    by (simp only: unat_and_fffffffc)
  then have "free AND 0xfffffffc = inbuf_len AND 0xfffffffc"
    by (simp only: word_unat_eq_iff)
  with True show ?thesis by (simp add: bytes_can_write_of_def Let_def)
next
  case False
  then show ?thesis by (simp add: bytes_can_write_of_def Let_def)
qed

lemma bytes_can_write_of_small:
  assumes "unat inbuf_len < 4"
  shows "bytes_can_write_of inbuf_len free = 0"
proof -
  let ?m = "if inbuf_len > free then free else inbuf_len"
  have "?m \<le> inbuf_len" by auto
  then have "unat ?m \<le> unat inbuf_len" by (simp only: word_le_nat_alt)
  with assms have "unat ?m div 4 = 0" by simp
  then have "unat (?m AND 0xfffffffc) = 0" by (simp only: unat_and_fffffffc)
  then have "?m AND 0xfffffffc = 0" by (simp only: unat_eq_0)
  then show ?thesis by (simp add: bytes_can_write_of_def Let_def)
qed

lemma unat_sub_aligned:
  "unat (x - (x AND 0xfffffffc) :: 32 word) = unat x mod 4"
proof -
  have le: "x AND 0xfffffffc \<le> x" by (rule word_and_le2)
  have "unat (x - (x AND 0xfffffffc)) = unat x - unat (x AND 0xfffffffc)"
    using le by (simp add: unat_sub)
  also have "\<dots> = unat x - 4 * (unat x div 4)" by (simp only: unat_and_fffffffc)
  also have "\<dots> = unat x mod 4" by arith
  finally show ?thesis .
qed


text \<open>
  For 8-bit samples expanded to a wider duty resolution (the branch \<^verbatim>\<open>shift < 0\<close>) the
  conversion halves \<^verbatim>\<open>bytes_can_write\<close> together with \<^verbatim>\<open>len\<close>: an iteration emits
  \<^verbatim>\<open>bytes_can_write\<close> bytes, which fit, but takes only half as many from the input. The
  rest of an aligned chunk is left for further iterations, each with its own wait, and
  once fewer than four input bytes remain they are dropped by the branch meant for
  \<^verbatim>\<open>the last misaligned bytes\<close>, although they are aligned samples.
\<close>

lemma expansion_takes_half_of_chunk:
  assumes "bits_per_sample handle = 8" "int8 (8 - duty_resolution handle) < 0"
  shows "snd (pwm_audio_convert handle inbuf bcw) = drop_bit 1 bcw"
    and "length (fst (pwm_audio_convert handle inbuf bcw)) = 2 * (unat bcw div 2)"
  using assms by (simp_all add: snd_pwm_audio_convert length_pwm_audio_convert)

lemma write_8_wide_five:
  "map_option (\<lambda>(res, n, h). (res, n, rb_contents (ringbuf h)))
     (pwm_audio_write
        \<lparr>duty_resolution = 10,
         ringbuf = \<lparr>buf = replicate 1024 0, head = 0, tail = 0, size_rb = 1024, is_give = 0\<rparr>,
         channel_mask = 3, channel_set_num = 2, framerate = 16000, bits_per_sample = 8,
         status = PWM_AUDIO_STATUS_BUSY\<rparr>
        (Some [1, 2, 3, 4, 5]) 5 (Some 0) [True, True]) = Some (ESP_OK, Some 5, [0, 2, 4, 2])"
proof -
  let ?rb = "\<lparr>buf = replicate 1024 0, head = 0, tail = 0, size_rb = 1024, is_give = 0\<rparr>"
  let ?h = "\<lparr>duty_resolution = 10, ringbuf = ?rb,
         channel_mask = 3, channel_set_num = 2, framerate = 16000, bits_per_sample = 8,
         status = PWM_AUDIO_STATUS_BUSY\<rparr>"
  let ?inbuf = "[1, 2, 3, 4, 5] :: 8 word list"
  define rb1 where "rb1 = snd (rb_write_bytes ?rb [0, 2, 4, 2])"
  have inv: "rb_inv ?rb" by (simp add: rb_inv_def rb_idx_ok_def)
  have free: "rb_get_free ?rb = 1023" by (simp add: rb_get_free_def rb_get_count_def)
  have bcw: "bytes_can_write_of 5 1023 = 4" by (simp add: bytes_can_write_of_def)
  have conv: "pwm_audio_convert ?h ?inbuf 4 = ([0, 2, 4, 2], 2)"
    by (simp add: pwm_audio_convert_def int8_def sample_8_wide_def Let_def upt_rec)
  have cont: "rb_contents rb1 = [0, 2, 4, 2]"
    using rb_write_bytes_fit[OF inv, of "[0, 2, 4, 2]"]
    by (simp add: rb1_def free rb_contents_empty)
  have small: "bytes_can_write_of 3 fr = 0" for fr
    by (rule bytes_can_write_of_small) simp
  have "pwm_audio_write_loop ?h ?inbuf 5 0 ESP_OK [True, True] =
        pwm_audio_write_loop (?h\<lparr>ringbuf := rb1\<rparr>) (drop 2 ?inbuf) 3 2 ESP_OK [True]"
    by (simp add: pwm_audio_write_loop_taken free bcw conv Let_def rb1_def
        del: pwm_audio_write_loop.simps)
  also have "\<dots> = Some (ESP_OK, 5, ?h\<lparr>ringbuf := rb1\<lparr>is_give := 0\<rparr>\<rparr>)"
    by (simp add: pwm_audio_write_loop_taken small Let_def del: pwm_audio_write_loop.simps)
  finally show ?thesis
    by (simp add: pwm_audio_write_def rb_contents_is_give cont del: pwm_audio_write_loop.simps)
qed

text \<open>
  Claim C5, amended. A call of \<^verbatim>\<open>pwm_audio_write\<close> with a length \<open>N\<close> that is not a
  multiple of 4, on a ring buffer with room for the aligned prefix of \<open>N - N mod 4\<close>
  bytes: when the wait of the first iteration and the wait of the second succeed, the call
  returns \<^verbatim>\<open>ESP_OK\<close> with \<^verbatim>\<open>bytes_written == N\<close>, and what has entered the ring buffer
  is the conversion of the aligned prefix only. Its length is \<open>N - N mod 4\<close> bytes for
  8-bit samples and for 16-bit samples at a duty resolution above 8, half of that for
  16-bit samples at resolution 8 and for 32-bit samples above 8, a quarter for 32-bit
  samples at resolution 8. The remainder is dropped in the second iteration, after its
  wait. This holds in every configuration whose \<^verbatim>\<open>shift\<close> is not negative for 8-bit
  samples. The one left out, 8-bit samples at a duty resolution above 8, is the branch
  described above, where aligned samples are lost as well: the statement neither promises
  nor denies anything about it, and the inputs after the theorem show what the code does
  there.
\<close>

theorem trailing_remainder_discarded:
  assumes inv: "rb_inv (ringbuf handle)"
    and rem: "unat inbuf_len mod 4 \<noteq> 0"
    and room: "unat inbuf_len - unat inbuf_len mod 4 \<le> unat (rb_get_free (ringbuf handle))"
    and cfg: "bits_per_sample handle = 8 \<longrightarrow> 0 \<le> int8 (8 - duty_resolution handle)"
  shows "map_option (\<lambda>(res, n, h). (res, n, rb_contents (ringbuf h)))
           (pwm_audio_write handle (Some inbuf) inbuf_len (Some prev) (True # True # waits)) =
         Some (ESP_OK, Some inbuf_len,
               rb_contents (ringbuf handle) @
               fst (pwm_audio_convert handle inbuf (inbuf_len AND 0xfffffffc))) \<and>
         length (fst (pwm_audio_convert handle inbuf (inbuf_len AND 0xfffffffc))) =
           (let m = unat inbuf_len - unat inbuf_len mod 4
            in if bits_per_sample handle = 8 then m
               else if bits_per_sample handle = 16
                 then (if duty_resolution handle > 8 then m else m div 2)
               else if bits_per_sample handle = 32
                 then (if duty_resolution handle > 8 then m div 2 else m div 4)
               else 0)"
proof -
  define M where "M = inbuf_len AND 0xfffffffc"
  define bs where "bs = fst (pwm_audio_convert handle inbuf M)"
  define rb0 where "rb0 = (ringbuf handle)\<lparr>is_give := 0\<rparr>"
  define rb1 where "rb1 = snd (rb_write_bytes rb0 bs)"
  have uM: "unat M = 4 * (unat inbuf_len div 4)"
    unfolding M_def by (rule unat_and_fffffffc)
  have uM': "unat M = unat inbuf_len - unat inbuf_len mod 4"
    unfolding uM by arith
  have nz: "inbuf_len \<noteq> 0"
    using rem by (auto simp: word_unat_eq_iff)
  have no_exp: "\<not> (bits_per_sample handle = 8 \<and> int8 (8 - duty_resolution handle) < 0)"
    using cfg by auto
  have c: "snd (pwm_audio_convert handle inbuf M) = M"
    using no_exp by (auto simp: snd_pwm_audio_convert)
  have len: "length bs =
      (let m = unat inbuf_len - unat inbuf_len mod 4
       in if bits_per_sample handle = 8 then m
          else if bits_per_sample handle = 16
            then (if duty_resolution handle > 8 then m else m div 2)
          else if bits_per_sample handle = 32
            then (if duty_resolution handle > 8 then m div 2 else m div 4)
          else 0)"
  proof -
    have "2 * (unat M div 2) = unat M" "2 * (unat M div 4) = unat M div 2"
      unfolding uM by arith+
    then show ?thesis
      using no_exp unfolding bs_def length_pwm_audio_convert Let_def uM'[symmetric] by simp
  qed
  have bcw: "bytes_can_write_of inbuf_len (rb_get_free (ringbuf handle)) = M"
    unfolding M_def using room uM' uM
    by (intro bytes_can_write_of_aligned_prefix) simp
  have inv0: "rb_inv rb0" and free0: "rb_get_free rb0 = rb_get_free (ringbuf handle)"
    and cont0: "rb_contents rb0 = rb_contents (ringbuf handle)"
    using inv by (simp_all add: rb0_def rb_inv_is_give rb_get_free_is_give rb_contents_is_give)
  have "length bs \<le> unat M" unfolding bs_def by (rule length_pwm_audio_convert_le)
  with room uM' have fit: "length bs \<le> unat (rb_get_free rb0)" by (simp add: free0)
  note w = rb_write_bytes_fit[OF inv0 fit]
  have cont1: "rb_contents rb1 = rb_contents (ringbuf handle) @ bs"
    using w by (simp add: rb1_def cont0)
  have urest: "unat (inbuf_len - M) = unat inbuf_len mod 4"
    unfolding M_def by (rule unat_sub_aligned)
  have rest_nz: "inbuf_len - M \<noteq> 0"
    using rem urest by (auto simp: word_unat_eq_iff)
  have small: "bytes_can_write_of (inbuf_len - M) fr = 0" for fr
    by (rule bytes_can_write_of_small) (simp add: urest)
  have loop: "map_option (\<lambda>(res, n, h). (res, n, rb_contents (ringbuf h)))
        (pwm_audio_write_loop handle inbuf inbuf_len 0 ESP_OK (True # True # waits)) =
      Some (ESP_OK, inbuf_len, rb_contents (ringbuf handle) @ bs)"
  proof (cases "M = 0")
    case True
    then have "length bs = 0"
      unfolding bs_def length_pwm_audio_convert by simp
    then have "bs = []" by simp
    then show ?thesis
      using True
      by (simp add: pwm_audio_write_loop_taken[OF nz] bcw Let_def rb_contents_is_give
          del: pwm_audio_write_loop.simps)
  next
    case False
    have "pwm_audio_write_loop handle inbuf inbuf_len 0 ESP_OK (True # True # waits) =
          pwm_audio_write_loop (handle\<lparr>ringbuf := rb1\<rparr>) (drop (unat M) inbuf)
            (inbuf_len - M) M ESP_OK (True # waits)"
      using False
      by (simp add: pwm_audio_write_loop_taken[OF nz] bcw Let_def c rb1_def bs_def rb0_def
          del: pwm_audio_write_loop.simps)
    also have "\<dots> = Some (ESP_OK, M + (inbuf_len - M),
                 handle\<lparr>ringbuf := rb1\<lparr>is_give := 0\<rparr>\<rparr>)"
      by (simp add: pwm_audio_write_loop_taken[OF rest_nz] small Let_def
          del: pwm_audio_write_loop.simps)
    finally show ?thesis
      by (simp add: rb_contents_is_give cont1)
  qed
  have "map_option (\<lambda>(res, n, h). (res, n, rb_contents (ringbuf h)))
           (pwm_audio_write handle (Some inbuf) inbuf_len (Some prev) (True # True # waits)) =
        map_option (\<lambda>(res, n, h). (res, Some n, h))
          (map_option (\<lambda>(res, n, h). (res, n, rb_contents (ringbuf h)))
            (pwm_audio_write_loop handle inbuf inbuf_len 0 ESP_OK (True # True # waits)))"
    using nz
    by (simp add: pwm_audio_write_def option.map_comp comp_def case_prod_unfold
        del: pwm_audio_write_loop.simps)
  also have "\<dots> = Some (ESP_OK, Some inbuf_len, rb_contents (ringbuf handle) @ bs)"
    unfolding loop by simp
  finally show ?thesis
    using len unfolding bs_def M_def by simp
qed



theorem trailing_remainder_discarded_witness:
  "rb_inv \<lparr>buf = replicate 1024 0, head = 0, tail = 0, size_rb = 1024, is_give = 0\<rparr> \<and>
   unat (6 :: 32 word) mod 4 = 2 \<and>
   map_option (\<lambda>(res, n, h). (res, n, rb_contents (ringbuf h)))
     (pwm_audio_write
        \<lparr>duty_resolution = 8,
         ringbuf = \<lparr>buf = replicate 1024 0, head = 0, tail = 0, size_rb = 1024, is_give = 0\<rparr>,
         channel_mask = 3, channel_set_num = 2, framerate = 16000, bits_per_sample = 8,
         status = PWM_AUDIO_STATUS_BUSY\<rparr>
        (Some [1, 2, 3, 4, 5, 6]) 6 (Some 0) [True, True]) =
     Some (ESP_OK, Some 6, [0x80, 0x81, 0x82, 0x83])"
  using trailing_remainder_discarded [where handle =
        "\<lparr>duty_resolution = 8,
         ringbuf = \<lparr>buf = replicate 1024 0, head = 0, tail = 0, size_rb = 1024, is_give = 0\<rparr>,
         channel_mask = 3, channel_set_num = 2, framerate = 16000, bits_per_sample = 8,
         status = PWM_AUDIO_STATUS_BUSY\<rparr>"
      and inbuf_len = 6 and inbuf = "[1, 2, 3, 4, 5, 6]" and prev = 0 and waits = "[]"]
  by (simp add: rb_inv_def rb_idx_ok_def rb_get_free_def rb_get_count_def rb_contents_def
      pwm_audio_convert_def int8_def sample_8_def Let_def upt_rec)

text \<open>
  Claim C5 as stated fails for 16-bit samples at duty resolution 8: of the five bytes
  written, four are the aligned prefix, and two bytes enter the ring buffer, not four.
  And the remainder is dropped only after a second wait: when that wait times out the
  call has not returned. It fails as well for 8-bit samples at duty resolution 10, the
  configuration the amended statement leaves out: of nine bytes, eight are the aligned
  prefix; after two successful waits the call has not returned, and after the third it
  returns \<^verbatim>\<open>ESP_OK\<close> with count 9 and twelve bytes in the ring buffer, the conversion of
  six of the eight aligned samples. Of five bytes the ring buffer gets the conversion of
  the first two samples only, and the third and the fourth, which belong to the aligned
  prefix, are dropped with the fifth.
\<close>

theorem trailing_remainder_counterexample:
  "map_option (\<lambda>(res, n, h). (res, n, rb_get_count (ringbuf h)))
     (pwm_audio_write
        \<lparr>duty_resolution = 8,
         ringbuf = \<lparr>buf = replicate 1024 0, head = 0, tail = 0, size_rb = 1024, is_give = 0\<rparr>,
         channel_mask = 3, channel_set_num = 2, framerate = 16000, bits_per_sample = 16,
         status = PWM_AUDIO_STATUS_BUSY\<rparr>
        (Some [1, 2, 3, 4, 5]) 5 (Some 0) [True, True]) = Some (ESP_OK, Some 5, 2) \<and>
   unat (5 :: 32 word) - unat (5 :: 32 word) mod 4 = 4 \<and>
   pwm_audio_write
        \<lparr>duty_resolution = 8,
         ringbuf = \<lparr>buf = replicate 1024 0, head = 0, tail = 0, size_rb = 1024, is_give = 0\<rparr>,
         channel_mask = 3, channel_set_num = 2, framerate = 16000, bits_per_sample = 16,
         status = PWM_AUDIO_STATUS_BUSY\<rparr>
        (Some [1, 2, 3, 4, 5]) 5 (Some 0) [True, False] = None \<and>
   pwm_audio_write
        \<lparr>duty_resolution = 10,
         ringbuf = \<lparr>buf = replicate 1024 0, head = 0, tail = 0, size_rb = 1024, is_give = 0\<rparr>,
         channel_mask = 3, channel_set_num = 2, framerate = 16000, bits_per_sample = 8,
         status = PWM_AUDIO_STATUS_BUSY\<rparr>
        (Some [1, 2, 3, 4, 5, 6, 7, 8, 9]) 9 (Some 0) [True, True] = None \<and>
   map_option (\<lambda>(res, n, h). (res, n, rb_get_count (ringbuf h)))
     (pwm_audio_write
        \<lparr>duty_resolution = 10,
         ringbuf = \<lparr>buf = replicate 1024 0, head = 0, tail = 0, size_rb = 1024, is_give = 0\<rparr>,
         channel_mask = 3, channel_set_num = 2, framerate = 16000, bits_per_sample = 8,
         status = PWM_AUDIO_STATUS_BUSY\<rparr>
        (Some [1, 2, 3, 4, 5, 6, 7, 8, 9]) 9 (Some 0) [True, True, True]) =
     Some (ESP_OK, Some 9, 12) \<and>
   unat (9 :: 32 word) - unat (9 :: 32 word) mod 4 = 8 \<and>
   map_option (\<lambda>(res, n, h). (res, n, rb_contents (ringbuf h)))
     (pwm_audio_write
        \<lparr>duty_resolution = 10,
         ringbuf = \<lparr>buf = replicate 1024 0, head = 0, tail = 0, size_rb = 1024, is_give = 0\<rparr>,
         channel_mask = 3, channel_set_num = 2, framerate = 16000, bits_per_sample = 8,
         status = PWM_AUDIO_STATUS_BUSY\<rparr>
        (Some [1, 2, 3, 4, 5]) 5 (Some 0) [True, True]) = Some (ESP_OK, Some 5, [0, 2, 4, 2]) \<and>
   sample_8_wide 2 1 @ sample_8_wide 2 2 = [0, 2, 4, 2]"
proof -
  have a: "map_option (\<lambda>(res, n, h). (res, n, rb_get_count (ringbuf h)))
     (pwm_audio_write
        \<lparr>duty_resolution = 8,
         ringbuf = \<lparr>buf = replicate 1024 0, head = 0, tail = 0, size_rb = 1024, is_give = 0\<rparr>,
         channel_mask = 3, channel_set_num = 2, framerate = 16000, bits_per_sample = 16,
         status = PWM_AUDIO_STATUS_BUSY\<rparr>
        (Some [1, 2, 3, 4, 5]) 5 (Some 0) [True, True]) = Some (ESP_OK, Some 5, 2) \<and>
   unat (5 :: 32 word) - unat (5 :: 32 word) mod 4 = 4 \<and>
   pwm_audio_write
        \<lparr>duty_resolution = 8,
         ringbuf = \<lparr>buf = replicate 1024 0, head = 0, tail = 0, size_rb = 1024, is_give = 0\<rparr>,
         channel_mask = 3, channel_set_num = 2, framerate = 16000, bits_per_sample = 16,
         status = PWM_AUDIO_STATUS_BUSY\<rparr>
        (Some [1, 2, 3, 4, 5]) 5 (Some 0) [True, False] = None"
    by (simp add: pwm_audio_write_def rb_wait_semaphore_def bytes_can_write_of_def
        pwm_audio_convert_def int8_def sample_16_def buf_16b_def rb_write_byte_def
        rb_get_free_def rb_get_count_def Let_def upt_rec)
  have b: "pwm_audio_write
        \<lparr>duty_resolution = 10,
         ringbuf = \<lparr>buf = replicate 1024 0, head = 0, tail = 0, size_rb = 1024, is_give = 0\<rparr>,
         channel_mask = 3, channel_set_num = 2, framerate = 16000, bits_per_sample = 8,
         status = PWM_AUDIO_STATUS_BUSY\<rparr>
        (Some [1, 2, 3, 4, 5, 6, 7, 8, 9]) 9 (Some 0) [True, True] = None \<and>
   map_option (\<lambda>(res, n, h). (res, n, rb_get_count (ringbuf h)))
     (pwm_audio_write
        \<lparr>duty_resolution = 10,
         ringbuf = \<lparr>buf = replicate 1024 0, head = 0, tail = 0, size_rb = 1024, is_give = 0\<rparr>,
         channel_mask = 3, channel_set_num = 2, framerate = 16000, bits_per_sample = 8,
         status = PWM_AUDIO_STATUS_BUSY\<rparr>
        (Some [1, 2, 3, 4, 5, 6, 7, 8, 9]) 9 (Some 0) [True, True, True]) =
     Some (ESP_OK, Some 9, 12) \<and>
   unat (9 :: 32 word) - unat (9 :: 32 word) mod 4 = 8"
    by (simp add: pwm_audio_write_def rb_wait_semaphore_def bytes_can_write_of_def
        pwm_audio_convert_def int8_def sample_8_wide_def rb_write_byte_def
        rb_get_free_def rb_get_count_def Let_def upt_rec)
  have c: "sample_8_wide 2 1 @ sample_8_wide 2 2 = [0, 2, 4, 2]"
    by (simp add: sample_8_wide_def Let_def)
  from a b c write_8_wide_five show ?thesis
    by (intro conjI) (simp_all only:)
qed

section \<open>From a 16-bit sample to the duty value\<close>

lemma bytes_of_word16:
  "push_bit 8 (ucast (ucast (drop_bit 8 v) :: 8 word)) OR ucast (ucast v :: 8 word) = (v :: 16 word)"
proof (rule bit_word_eqI)
  fix n
  assume "n < LENGTH(16)"
  then have n: "n < 16" by simp
  have "n - 8 + 8 = n" if "8 \<le> n" using that by arith
  with n show "bit (push_bit 8 (ucast (ucast (drop_bit 8 v) :: 8 word)) OR ucast (ucast v :: 8 word) :: 16 word) n
      \<longleftrightarrow> bit v n"
    by (cases "8 \<le> n") (auto simp: bit_simps)
qed

lemma buf_16b_bytes:
  "buf_16b [ucast s, ucast (drop_bit 8 s), ucast s', ucast (drop_bit 8 s')] 0 = s"
  "buf_16b [ucast s, ucast (drop_bit 8 s), ucast s', ucast (drop_bit 8 s')] 1 = s'"
  using bytes_of_word16[of s] bytes_of_word16[of s']
  by (simp_all add: buf_16b_def or.commute)

lemma uint_offset_16:
  assumes "s \<noteq> (0x8000 :: 16 word)"
  shows "uint (s + 0x7fff) = sint s + 32767"
proof -
  have lt: "uint s < 65536" using uint_lt2p[of s] by simp
  have ge: "0 \<le> uint s" by simp
  have "sint s = take_bit 16 (uint s) - 65536 * of_bool (bit (uint s) 15)"
    by (simp add: sint_uint signed_take_bit_eq_take_bit_minus)
  also have "take_bit 16 (uint s) = uint s"
    using lt ge by (simp add: take_bit_eq_mod)
  finally have s: "sint s = uint s - 65536 * of_bool (bit (uint s) 15)" .
  have "uint s div 32768 = 0 \<or> uint s div 32768 = 1"
    using lt ge by auto
  then have b: "bit (uint s) 15 \<longleftrightarrow> 32768 \<le> uint s"
    using lt ge by (auto simp: bit_iff_odd)
  have ne: "uint s \<noteq> 32768"
  proof
    assume "uint s = 32768"
    then have "s = word_of_int 32768" by (metis word_of_int_uint)
    with assms show False by simp
  qed
  have "uint (s + 0x7fff) = (uint s + 32767) mod 65536"
    by (simp add: uint_word_ariths)
  also have "\<dots> = sint s + 32767"
  proof (cases "32768 \<le> uint s")
    case True
    with ne lt have "(uint s + 32767) mod 65536 = uint s + 32767 - 65536"
      by (simp add: mod_pos_geq)
    with True show ?thesis unfolding s b by simp
  next
    case False
    with ge have "(uint s + 32767) mod 65536 = uint s + 32767"
      by simp
    with False show ?thesis unfolding s b by simp
  qed
  finally show ?thesis .
qed


lemma isr_no_left_duty:
  "filter is_left_duty (fst (isr_right_channel handle hw)) = []"
  "filter is_left_duty (fst (isr_give_semaphore handle hw)) = []"
  by (simp_all add: isr_right_channel_def isr_give_semaphore_def Let_def case_prod_unfold)

lemma pwm_audio_write_loop_done:
  "pwm_audio_write_loop handle inbuf 0 bw res waits = Some (res, bw, handle)"
  by (cases waits) simp_all

lemma pwm_audio_convert_16_10:
  assumes "bits_per_sample handle = 16" "duty_resolution handle = 10"
  shows "pwm_audio_convert handle inbuf 4 =
           (sample_16_wide 6 (buf_16b inbuf 0) @ sample_16_wide 6 (buf_16b inbuf 1), 4)"
proof -
  have "[0..<unat (drop_bit 1 (4 :: 32 word))] = [0, 1]"
    by (simp add: drop_bit_eq_div upt_rec)
  then show ?thesis
    using assms by (simp add: pwm_audio_convert_def int8_def Let_def)
qed

lemma sample16_write_then_isr:
  fixes s s' :: "16 word"
  assumes bits: "bits_per_sample handle = 16" and res: "duty_resolution handle = 10"
    and left: "channel_mask handle AND CHANNEL_LEFT_MASK \<noteq> 0"
    and inv: "rb_inv (ringbuf handle)"
    and empty: "head (ringbuf handle) = tail (ringbuf handle)"
    and room: "4 \<le> unat (rb_get_free (ringbuf handle))"
  shows "map_option (\<lambda>(r, n, h). (r, n, filter is_left_duty (fst (timer_group_isr (Some h) hw))))
           (pwm_audio_write handle
              (Some [ucast s, ucast (drop_bit 8 s), ucast s', ucast (drop_bit 8 s')]) 4
              (Some prev) (True # waits)) =
         Some (ESP_OK, Some 4, [Left_duty (ucast (drop_bit 6 (s + 0x7fff :: 16 word)))])"
proof -
  let ?inbuf = "[ucast s, ucast (drop_bit 8 s), ucast s', ucast (drop_bit 8 s')] :: 8 word list"
  define d where "d = drop_bit 6 (s + 0x7fff :: 16 word)"
  define d' where "d' = drop_bit 6 (s' + 0x7fff :: 16 word)"
  define bs :: "8 word list" where
    "bs = [ucast d, ucast (drop_bit 8 d), ucast d', ucast (drop_bit 8 d')]"
  define rb0 where "rb0 = (ringbuf handle)\<lparr>is_give := 0\<rparr>"
  define rb1 where "rb1 = snd (rb_write_bytes rb0 bs)"
  have conv: "pwm_audio_convert handle ?inbuf 4 = (bs, 4)"
    unfolding pwm_audio_convert_16_10[OF bits res] buf_16b_bytes
    by (simp add: sample_16_wide_def bs_def d_def d'_def Let_def)
  have bcw: "bytes_can_write_of 4 (rb_get_free (ringbuf handle)) = 4"
  proof -
    have "bytes_can_write_of 4 (rb_get_free (ringbuf handle)) = 4 AND 0xfffffffc"
      using room by (intro bytes_can_write_of_aligned_prefix) simp
    then show ?thesis by simp
  qed
  have inv0: "rb_inv rb0" and free0: "rb_get_free rb0 = rb_get_free (ringbuf handle)"
    and cont0: "rb_contents rb0 = []"
    using inv empty
    by (simp_all add: rb0_def rb_inv_is_give rb_get_free_is_give rb_contents_is_give
        rb_contents_empty)
  have fit: "length bs \<le> unat (rb_get_free rb0)"
    using room by (simp add: free0 bs_def)
  note w = rb_write_bytes_fit[OF inv0 fit]
  from w have inv1: "rb_inv rb1"
    and cont1: "rb_contents rb1 = ucast d # ucast (drop_bit 8 d) # [ucast d', ucast (drop_bit 8 d')]"
    by (simp_all add: rb1_def cont0 bs_def)
  have wr: "pwm_audio_write handle (Some ?inbuf) 4 (Some prev) (True # waits) =
            Some (ESP_OK, Some 4, handle\<lparr>ringbuf := rb1\<rparr>)"
    by (simp add: pwm_audio_write_def pwm_audio_write_loop_taken bcw Let_def conv
        pwm_audio_write_loop_done rb1_def rb0_def del: pwm_audio_write_loop.simps)
  let ?h1 = "handle\<lparr>ringbuf := rb1\<rparr>"
  have l: "fst (isr_left_channel ?h1 hw) = [Left_duty (ucast d)]"
    using isr_left_channel_wide(1)[of ?h1 "ucast d" "ucast (drop_bit 8 d)" _ hw] left res inv1 cont1
    by (simp add: bytes_of_word16)
  have "filter is_left_duty (fst (timer_group_isr (Some ?h1) hw)) = [Left_duty (ucast d)]"
    by (simp add: timer_group_isr_unfold Let_def l isr_no_left_duty)
  then show ?thesis
    unfolding wr d_def by simp
qed

lemma duty_16_10_value:
  assumes ne: "s \<noteq> (0x8000 :: 16 word)"
  shows "uint (ucast (drop_bit 6 (s + 0x7fff)) :: 32 word) = (sint s + 32767) div 2 ^ 6"
proof -
  have "uint (ucast (drop_bit 6 (s + 0x7fff)) :: 32 word) = uint (drop_bit 6 (s + 0x7fff))"
    by (simp add: uint_up_ucast is_up)
  also have "\<dots> = int (unat (drop_bit 6 (s + 0x7fff)))"
    by simp
  also have "\<dots> = int (unat (s + 0x7fff) div 2 ^ 6)"
    by (simp add: unat_drop_bit_eq drop_bit_eq_div unat_div)
  also have "\<dots> = uint (s + 0x7fff) div 2 ^ 6"
    by (simp add: zdiv_int)
  also have "\<dots> = (sint s + 32767) div 2 ^ 6"
    by (simp only: uint_offset_16[OF ne])
  finally show ?thesis .
qed

lemma sample_bytes_examples:
  "ucast (0x7fff :: 16 word) = (0xff :: 8 word)"
  "ucast (drop_bit 8 (0x7fff :: 16 word)) = (0x7f :: 8 word)"
  "ucast (0x8001 :: 16 word) = (0x01 :: 8 word)"
  "ucast (drop_bit 8 (0x8001 :: 16 word)) = (0x80 :: 8 word)"
  "ucast (0x8000 :: 16 word) = (0x00 :: 8 word)"
  "ucast (drop_bit 8 (0x8000 :: 16 word)) = (0x80 :: 8 word)"
  by simp_all

text \<open>
  The conversion of 16-bit samples at duty resolution 10 over a whole call: every
  iteration appends the two bytes of each sample it takes, and continues at the sample
  after the last one taken.
\<close>

lemma pwm_audio_convert_16_wide:
  assumes "bits_per_sample handle = 16" "duty_resolution handle = 10"
  shows "pwm_audio_convert handle inbuf bcw =
           (concat (map (\<lambda>i. sample_16_wide 6 (buf_16b inbuf i)) [0..<unat bcw div 2]), bcw)"
  using assms
  by (simp add: pwm_audio_convert_def int8_def Let_def unat_drop_bit_eq drop_bit_eq_div unat_div)

lemma sample_16_wide_6:
  "sample_16_wide 6 s =
     [ucast (drop_bit 6 (s + 0x7fff)), ucast (drop_bit 8 (drop_bit 6 (s + 0x7fff)))]"
  by (simp add: sample_16_wide_def Let_def)

lemma buf_16b_drop:
  assumes "2 * m + 2 * i + 2 \<le> length inbuf"
  shows "buf_16b (drop (2 * m) inbuf) i = buf_16b inbuf (m + i)"
  using assms by (simp add: buf_16b_def algebra_simps)

lemma concat_map_shift:
  "concat (map f [0..<m]) @ concat (map (\<lambda>i. f (m + i)) [0..<k]) = concat (map f [0..<m + k])"
proof -
  have "map (\<lambda>i. f (m + i)) [0..<k] = map (f \<circ> (\<lambda>i. i + m)) [0..<k]"
    by (simp only: comp_def add.commute[of m])
  also have "\<dots> = map f (map (\<lambda>i. i + m) [0..<k])" by (simp only: map_map)
  also have "\<dots> = map f [m..<k + m]" by (simp only: map_add_upt)
  finally have a: "map (\<lambda>i. f (m + i)) [0..<k] = map f [m..<m + k]"
    by (simp only: add.commute[of k m])
  have b: "[0..<m + k] = [0..<m] @ [m..<m + k]"
    by (rule upt_add_eq_append) simp
  show ?thesis unfolding a b by simp
qed

lemma bytes_can_write_of_aligned:
  "unat (bytes_can_write_of n fr) = 4 * (unat (if n > fr then fr else n) div 4)"
  unfolding bytes_can_write_of_def Let_def by (simp only: unat_and_fffffffc)

lemma pwm_audio_write_loop_16_wide:
  assumes bits: "bits_per_sample handle = 16" and res: "duty_resolution handle = 10"
    and inv: "rb_inv (ringbuf handle)"
    and len: "unat inbuf_len \<le> length inbuf"
    and ret: "pwm_audio_write_loop handle inbuf inbuf_len bw r0 waits = Some (r, n, h')"
  shows "\<exists>k. 2 * k \<le> unat inbuf_len \<and>
           rb_contents (ringbuf h') = rb_contents (ringbuf handle) @
             concat (map (\<lambda>i. sample_16_wide 6 (buf_16b inbuf i)) [0..<k])"
  using assms
proof (induction waits arbitrary: handle inbuf inbuf_len bw r0)
  case Nil
  then have "h' = handle" by (simp split: if_splits)
  then show ?case by (intro exI[of _ 0]) simp
next
  case (Cons taken waits)
  show ?case
  proof (cases "inbuf_len = 0")
    case True
    with Cons.prems have "h' = handle" by simp
    then show ?thesis by (intro exI[of _ 0]) simp
  next
    case nz: False
    show ?thesis
    proof (cases taken)
      case False
      let ?h = "handle\<lparr>ringbuf := (ringbuf handle)\<lparr>is_give := 0\<rparr>\<rparr>"
      from Cons.prems(5) nz False
      have ret': "pwm_audio_write_loop ?h inbuf inbuf_len bw ESP_FAIL waits = Some (r, n, h')"
        by (simp add: rb_wait_semaphore_def Let_def)
      have "\<exists>k. 2 * k \<le> unat inbuf_len \<and>
           rb_contents (ringbuf h') = rb_contents (ringbuf ?h) @
             concat (map (\<lambda>i. sample_16_wide 6 (buf_16b inbuf i)) [0..<k])"
        using Cons.prems(1-4) by (intro Cons.IH[OF _ _ _ _ ret']) (simp_all add: rb_inv_is_give)
      then show ?thesis by (simp add: rb_contents_is_give)
    next
      case True
      define rb0 where "rb0 = (ringbuf handle)\<lparr>is_give := 0\<rparr>"
      define bcw where "bcw = bytes_can_write_of inbuf_len (rb_get_free (ringbuf handle))"
      define m where "m = unat bcw div 2"
      define bs where "bs = concat (map (\<lambda>i. sample_16_wide 6 (buf_16b inbuf i)) [0..<m])"
      define rb1 where "rb1 = snd (rb_write_bytes rb0 bs)"
      have conv: "pwm_audio_convert handle inbuf bcw = (bs, bcw)"
        unfolding bs_def m_def by (rule pwm_audio_convert_16_wide[OF Cons.prems(1,2)])
      have inv0: "rb_inv rb0" and cont0: "rb_contents rb0 = rb_contents (ringbuf handle)"
        and free0: "rb_get_free rb0 = rb_get_free (ringbuf handle)"
        using Cons.prems(3) by (simp_all add: rb0_def rb_inv_is_give rb_contents_is_give rb_get_free_is_give)
      show ?thesis
      proof (cases "bcw = 0")
        case z: True
        from Cons.prems(5) nz True z have "h' = handle\<lparr>ringbuf := rb0\<rparr>"
          by (simp add: pwm_audio_write_loop_taken bcw_def rb0_def Let_def
              del: pwm_audio_write_loop.simps)
        then show ?thesis by (intro exI[of _ 0]) (simp add: cont0)
      next
        case bnz: False
        have ualign: "unat bcw = 4 * (unat bcw div 4)"
          unfolding bcw_def bytes_can_write_of_aligned by simp
        then have m2: "2 * m = unat bcw" unfolding m_def by arith
        have ble: "unat bcw \<le> unat inbuf_len" "unat bcw \<le> unat (rb_get_free rb0)"
          using bytes_can_write_of_le[of inbuf_len "rb_get_free (ringbuf handle)"]
          by (simp_all add: bcw_def word_le_nat_alt free0)
        have lbs: "length bs = unat bcw"
          unfolding bs_def using m2 by (simp add: length_concat_const[OF length_samples(3)])
        note w = rb_write_bytes_fit[OF inv0, of bs]
        have inv1: "rb_inv rb1" and cont1: "rb_contents rb1 = rb_contents (ringbuf handle) @ bs"
          using w ble lbs by (simp_all add: rb1_def cont0)
        let ?h = "handle\<lparr>ringbuf := rb1\<rparr>"
        from Cons.prems(5) nz True bnz
        have ret': "pwm_audio_write_loop ?h (drop (unat bcw) inbuf) (inbuf_len - bcw) (bw + bcw) r0 waits
                     = Some (r, n, h')"
          by (simp add: pwm_audio_write_loop_taken bcw_def[symmetric] rb0_def[symmetric] Let_def conv
              rb1_def del: pwm_audio_write_loop.simps)
        have usub: "unat (inbuf_len - bcw) = unat inbuf_len - unat bcw"
          using ble(1) by (simp add: unat_sub word_le_nat_alt)
        have len': "unat (inbuf_len - bcw) \<le> length (drop (unat bcw) inbuf)"
          using Cons.prems(4) usub by simp
        have "\<exists>k. 2 * k \<le> unat (inbuf_len - bcw) \<and>
           rb_contents (ringbuf h') = rb_contents (ringbuf ?h) @
             concat (map (\<lambda>i. sample_16_wide 6 (buf_16b (drop (unat bcw) inbuf) i)) [0..<k])"
          using Cons.prems(1,2) inv1 len' by (intro Cons.IH[OF _ _ _ _ ret']) simp_all
        then obtain k where k: "2 * k \<le> unat (inbuf_len - bcw)"
          and c: "rb_contents (ringbuf h') = rb_contents rb1 @
             concat (map (\<lambda>i. sample_16_wide 6 (buf_16b (drop (unat bcw) inbuf) i)) [0..<k])"
          by auto
        have "map (\<lambda>i. sample_16_wide 6 (buf_16b (drop (unat bcw) inbuf) i)) [0..<k] =
              map (\<lambda>i. sample_16_wide 6 (buf_16b inbuf (m + i))) [0..<k]"
        proof (rule map_cong[OF refl])
          fix i assume "i \<in> set [0..<k]"
          then have "2 * m + 2 * i + 2 \<le> length inbuf"
            using k usub m2 Cons.prems(4) ble(1) by simp
          then show "sample_16_wide 6 (buf_16b (drop (unat bcw) inbuf) i) =
                     sample_16_wide 6 (buf_16b inbuf (m + i))"
            unfolding m2[symmetric] by (simp only: buf_16b_drop)
        qed
        with c have "rb_contents (ringbuf h') = rb_contents (ringbuf handle) @
            concat (map (\<lambda>i. sample_16_wide 6 (buf_16b inbuf i)) [0..<m + k])"
          unfolding cont1 bs_def
          using concat_map_shift[of "\<lambda>i. sample_16_wide 6 (buf_16b inbuf i)" m k] by simp
        moreover have "2 * (m + k) \<le> unat inbuf_len"
          using k usub m2 ble(1) by simp
        ultimately show ?thesis by blast
      qed
    qed
  qed
qed



lemma isr_right_channel_mono_frame:
  assumes "channel_set_num handle = 1"
  shows "fst (snd (isr_right_channel handle hw)) = handle"
  using assms by (simp add: isr_right_channel_def)

lemma isr_give_semaphore_frame:
  "channel_mask (fst (snd (isr_give_semaphore handle hw))) = channel_mask handle"
  "channel_set_num (fst (snd (isr_give_semaphore handle hw))) = channel_set_num handle"
  "duty_resolution (fst (snd (isr_give_semaphore handle hw))) = duty_resolution handle"
  "rb_inv (ringbuf (fst (snd (isr_give_semaphore handle hw)))) = rb_inv (ringbuf handle)"
  "rb_contents (ringbuf (fst (snd (isr_give_semaphore handle hw)))) = rb_contents (ringbuf handle)"
  by (simp_all add: isr_give_semaphore_def rb_inv_is_give rb_contents_is_give)

lemma timer_group_isr_left_mono_wide:
  assumes left: "channel_mask handle AND CHANNEL_LEFT_MASK \<noteq> 0"
    and mono: "channel_set_num handle = 1"
    and res: "duty_resolution handle > 8"
    and inv: "rb_inv (ringbuf handle)"
    and cont: "rb_contents (ringbuf handle) = ucast d # ucast (drop_bit 8 d) # rest"
  shows "filter is_left_duty (fst (timer_group_isr (Some handle) hw)) = [Left_duty (ucast (d :: 16 word))]"
    and "channel_mask (the (fst (snd (timer_group_isr (Some handle) hw)))) = channel_mask handle"
    and "channel_set_num (the (fst (snd (timer_group_isr (Some handle) hw)))) = 1"
    and "duty_resolution (the (fst (snd (timer_group_isr (Some handle) hw)))) = duty_resolution handle"
    and "rb_inv (ringbuf (the (fst (snd (timer_group_isr (Some handle) hw)))))"
    and "rb_contents (ringbuf (the (fst (snd (timer_group_isr (Some handle) hw))))) = rest"
proof -
  let ?l = "isr_left_channel handle hw"
  let ?h1 = "fst (snd ?l)"
  let ?r = "isr_right_channel ?h1 (snd (snd ?l))"
  let ?g = "isr_give_semaphore (fst (snd ?r)) (snd (snd ?r))"
  note w = isr_left_channel_wide[OF left res inv cont, of hw]
  have mono1: "channel_set_num ?h1 = 1" using mono by (simp add: isr_left_channel_config)
  have r: "fst (snd ?r) = ?h1" by (rule isr_right_channel_mono_frame[OF mono1])
  have ev: "fst (timer_group_isr (Some handle) hw) = fst ?l @ fst ?r @ fst ?g"
    and h: "the (fst (snd (timer_group_isr (Some handle) hw))) = fst (snd ?g)"
    by (simp_all add: timer_group_isr_unfold Let_def)
  show "filter is_left_duty (fst (timer_group_isr (Some handle) hw)) = [Left_duty (ucast d)]"
    unfolding ev using w(1) by (simp add: isr_no_left_duty bytes_of_word16)
  show "channel_mask (the (fst (snd (timer_group_isr (Some handle) hw)))) = channel_mask handle"
    unfolding h r by (simp add: isr_give_semaphore_frame isr_left_channel_config)
  show "channel_set_num (the (fst (snd (timer_group_isr (Some handle) hw)))) = 1"
    unfolding h r using mono by (simp add: isr_give_semaphore_frame isr_left_channel_config)
  show "duty_resolution (the (fst (snd (timer_group_isr (Some handle) hw)))) = duty_resolution handle"
    unfolding h r by (simp add: isr_give_semaphore_frame isr_left_channel_config)
  show "rb_inv (ringbuf (the (fst (snd (timer_group_isr (Some handle) hw)))))"
    unfolding h r using w(3) by (simp add: isr_give_semaphore_frame)
  show "rb_contents (ringbuf (the (fst (snd (timer_group_isr (Some handle) hw))))) = rest"
    unfolding h r using w(2) by (simp add: isr_give_semaphore_frame)
qed

lemma sys_run_isr_left_mono:
  fixes ds :: "16 word list"
  assumes left: "channel_mask handle AND CHANNEL_LEFT_MASK \<noteq> 0"
    and mono: "channel_set_num handle = 1"
    and res: "duty_resolution handle > 8"
    and inv: "rb_inv (ringbuf handle)"
    and cont: "rb_contents (ringbuf handle) =
                 concat (map (\<lambda>d. [ucast d, ucast (drop_bit 8 d)]) ds) @ rest"
  shows "filter is_left_duty (concat (map isr_events
           (fst (sys_run (replicate (length ds) Run_isr) (handle, hw))))) =
         map (\<lambda>d. Left_duty (ucast d)) ds"
  using assms
proof (induction ds arbitrary: handle hw)
  case Nil
  then show ?case by simp
next
  case (Cons d ds)
  let ?t = "timer_group_isr (Some handle) hw"
  from Cons.prems(5)
  have cont: "rb_contents (ringbuf handle) = ucast d # ucast (drop_bit 8 d) #
      (concat (map (\<lambda>d. [ucast d, ucast (drop_bit 8 d)]) ds) @ rest)" by simp
  note t = timer_group_isr_left_mono_wide[OF Cons.prems(1,2,3,4) cont, of hw]
  have res': "duty_resolution (the (fst (snd ?t))) > 8" using t(4) Cons.prems(3) by simp
  have left': "channel_mask (the (fst (snd ?t))) AND CHANNEL_LEFT_MASK \<noteq> 0"
    using t(2) Cons.prems(1) by simp
  note ih = Cons.IH[OF left' t(3) res' t(5) t(6), of "snd (snd ?t)"]
  show ?case
    using ih t(1)
    by (simp add: sys_run_Cons sys_step_Run_isr del: sys_run.simps(2) sys_step.simps(1))
qed


lemma pwm_audio_write_16_wide_fits:
  assumes bits: "bits_per_sample handle = 16" and res: "duty_resolution handle = 10"
    and inv: "rb_inv (ringbuf handle)"
    and nz: "inbuf_len \<noteq> 0" and al: "unat inbuf_len mod 4 = 0"
    and room: "unat inbuf_len \<le> unat (rb_get_free (ringbuf handle))"
  shows "\<exists>rb. pwm_audio_write handle (Some inbuf) inbuf_len (Some prev) (True # waits) =
           Some (ESP_OK, Some inbuf_len, handle\<lparr>ringbuf := rb\<rparr>) \<and> rb_inv rb \<and>
           rb_contents rb = rb_contents (ringbuf handle) @
             concat (map (\<lambda>i. sample_16_wide 6 (buf_16b inbuf i)) [0..<unat inbuf_len div 2])"
proof -
  define rb0 where "rb0 = (ringbuf handle)\<lparr>is_give := 0\<rparr>"
  define bs where "bs = concat (map (\<lambda>i. sample_16_wide 6 (buf_16b inbuf i)) [0..<unat inbuf_len div 2])"
  define rb1 where "rb1 = snd (rb_write_bytes rb0 bs)"
  have "unat (inbuf_len AND 0xfffffffc) = unat inbuf_len"
    unfolding unat_and_fffffffc using al by arith
  then have m: "inbuf_len AND 0xfffffffc = inbuf_len" by (simp only: word_unat_eq_iff)
  have bcw: "bytes_can_write_of inbuf_len (rb_get_free (ringbuf handle)) = inbuf_len"
  proof -
    have "bytes_can_write_of inbuf_len (rb_get_free (ringbuf handle)) = inbuf_len AND 0xfffffffc"
      using room by (intro bytes_can_write_of_aligned_prefix) arith
    then show ?thesis by (simp only: m)
  qed
  have conv: "pwm_audio_convert handle inbuf inbuf_len = (bs, inbuf_len)"
    unfolding bs_def by (rule pwm_audio_convert_16_wide[OF bits res])
  have inv0: "rb_inv rb0" and cont0: "rb_contents rb0 = rb_contents (ringbuf handle)"
    and free0: "rb_get_free rb0 = rb_get_free (ringbuf handle)"
    using inv by (simp_all add: rb0_def rb_inv_is_give rb_contents_is_give rb_get_free_is_give)
  have "2 * (unat inbuf_len div 2) = unat inbuf_len" using al by arith
  then have lbs: "length bs = unat inbuf_len"
    unfolding bs_def by (simp add: length_concat_const[OF length_samples(3)])
  note w = rb_write_bytes_fit[OF inv0, of bs]
  have inv1: "rb_inv rb1" and cont1: "rb_contents rb1 = rb_contents (ringbuf handle) @ bs"
    using w room lbs by (simp_all add: rb1_def cont0 free0)
  have "pwm_audio_write handle (Some inbuf) inbuf_len (Some prev) (True # waits) =
          Some (ESP_OK, Some inbuf_len, handle\<lparr>ringbuf := rb1\<rparr>)"
    using nz
    by (simp add: pwm_audio_write_def pwm_audio_write_loop_taken bcw Let_def conv
        pwm_audio_write_loop_done rb1_def rb0_def del: pwm_audio_write_loop.simps)
  with inv1 cont1 show ?thesis unfolding bs_def by blast
qed

text \<open>
  Claim C4, amended. With 16 bits per sample and duty resolution 10, on a caller's buffer
  that holds \<^verbatim>\<open>inbuf_len\<close> bytes, write \<open>s i\<close> for the \<open>i\<close>-th sample of the input
  (little-endian) and \<open>duty i\<close> for the 16-bit sum \<open>s i + 0x7fff\<close> shifted right by 6.
  For every sample other than -32768 (bit pattern 0x8000), \<open>duty i\<close> is
  \<open>(s i + 32767) >> 6\<close> on the signed value of the sample, 32767 and -32767 included.
  Whenever a call of \<^verbatim>\<open>pwm_audio_write\<close> returns, whatever the outcomes of its waits
  and the free space, what it has appended to the ring buffer is, for the first \<open>k\<close>
  samples of the input in order, the low and the high byte of \<open>duty i\<close>. When the length
  is a non-zero multiple of 4 that fits into the free space and the first wait succeeds,
  the call returns \<^verbatim>\<open>ESP_OK\<close> with the whole length as count and has appended these two
  bytes for every sample of the input. When moreover the source is mono, the left channel
  is enabled and the ring buffer was empty, the following invocations of the interrupt
  handler, one for each sample, hand to the left actuator the values reconstructed from
  these bytes: \<open>duty 0\<close>, \<open>duty 1\<close>, and so on to the last sample.
\<close>

theorem sample16_duty_roundtrip:
  fixes inbuf :: "8 word list"
  assumes bits: "bits_per_sample handle = 16" and res: "duty_resolution handle = 10"
    and inv: "rb_inv (ringbuf handle)"
    and len: "unat inbuf_len \<le> length inbuf"
  shows "let duty = (\<lambda>i. drop_bit 6 (buf_16b inbuf i + 0x7fff));
             bytes = (\<lambda>k. concat (map (\<lambda>i. [ucast (duty i), ucast (drop_bit 8 (duty i))]) [0..<k]));
             n = unat inbuf_len div 2
         in (\<forall>i. buf_16b inbuf i \<noteq> 0x8000 \<longrightarrow>
               uint (ucast (duty i) :: 32 word) = (sint (buf_16b inbuf i) + 32767) div 2 ^ 6) \<and>
            (\<forall>r m h'. pwm_audio_write handle (Some inbuf) inbuf_len (Some prev) waits = Some (r, m, h')
               \<longrightarrow> (\<exists>k\<le>n. rb_contents (ringbuf h') = rb_contents (ringbuf handle) @ bytes k)) \<and>
            (inbuf_len \<noteq> 0 \<and> unat inbuf_len mod 4 = 0 \<and>
             unat inbuf_len \<le> unat (rb_get_free (ringbuf handle)) \<longrightarrow>
               map_option (\<lambda>(r, m, h). (r, m, rb_contents (ringbuf h)))
                 (pwm_audio_write handle (Some inbuf) inbuf_len (Some prev) (True # waits)) =
               Some (ESP_OK, Some inbuf_len, rb_contents (ringbuf handle) @ bytes n) \<and>
               (channel_mask handle AND CHANNEL_LEFT_MASK \<noteq> 0 \<and> channel_set_num handle = 1 \<and>
                head (ringbuf handle) = tail (ringbuf handle) \<longrightarrow>
                  map_option (\<lambda>(r, m, h). filter is_left_duty (concat (map isr_events
                      (fst (sys_run (replicate n Run_isr) (h, hw))))))
                    (pwm_audio_write handle (Some inbuf) inbuf_len (Some prev) (True # waits)) =
                  Some (map (\<lambda>i. Left_duty (ucast (duty i))) [0..<n])))"
proof -
  define duty where "duty = (\<lambda>i. drop_bit 6 (buf_16b inbuf i + 0x7fff))"
  define bytes :: "nat \<Rightarrow> 8 word list" where
    "bytes = (\<lambda>k. concat (map (\<lambda>i. [ucast (duty i), ucast (drop_bit 8 (duty i))]) [0..<k]))"
  define n where "n = unat inbuf_len div 2"
  have enc: "concat (map (\<lambda>i. sample_16_wide 6 (buf_16b inbuf i)) [0..<k]) = bytes k" for k
    unfolding bytes_def duty_def by (simp add: sample_16_wide_6)
  have enc': "bytes k = concat (map (\<lambda>d. [ucast d, ucast (drop_bit 8 d)]) (map duty [0..<k]))" for k
    unfolding bytes_def by (simp add: comp_def)
  have p1: "uint (ucast (duty i) :: 32 word) = (sint (buf_16b inbuf i) + 32767) div 2 ^ 6"
    if "buf_16b inbuf i \<noteq> 0x8000" for i
    unfolding duty_def by (rule duty_16_10_value[OF that])
  have p2: "\<exists>k\<le>n. rb_contents (ringbuf h') = rb_contents (ringbuf handle) @ bytes k"
    if w: "pwm_audio_write handle (Some inbuf) inbuf_len (Some prev) waits = Some (r, m, h')"
    for r m h'
  proof (cases "inbuf_len = 0")
    case True
    with w have "h' = handle" by (simp add: pwm_audio_write_def)
    then have "rb_contents (ringbuf h') = rb_contents (ringbuf handle) @ bytes 0"
      by (simp add: bytes_def)
    then show ?thesis by blast
  next
    case False
    with w obtain m' where
      "pwm_audio_write_loop handle inbuf inbuf_len 0 ESP_OK waits = Some (r, m', h')"
      by (auto simp: pwm_audio_write_def)
    from pwm_audio_write_loop_16_wide[OF bits res inv len this]
    obtain k where k: "2 * k \<le> unat inbuf_len"
      and c: "rb_contents (ringbuf h') = rb_contents (ringbuf handle) @ bytes k"
      unfolding enc by blast
    from k have "k \<le> n" unfolding n_def by arith
    with c show ?thesis by blast
  qed
  have p3: "map_option (\<lambda>(r, m, h). (r, m, rb_contents (ringbuf h)))
                 (pwm_audio_write handle (Some inbuf) inbuf_len (Some prev) (True # waits)) =
               Some (ESP_OK, Some inbuf_len, rb_contents (ringbuf handle) @ bytes n) \<and>
               (channel_mask handle AND CHANNEL_LEFT_MASK \<noteq> 0 \<and> channel_set_num handle = 1 \<and>
                head (ringbuf handle) = tail (ringbuf handle) \<longrightarrow>
                  map_option (\<lambda>(r, m, h). filter is_left_duty (concat (map isr_events
                      (fst (sys_run (replicate n Run_isr) (h, hw))))))
                    (pwm_audio_write handle (Some inbuf) inbuf_len (Some prev) (True # waits)) =
                  Some (map (\<lambda>i. Left_duty (ucast (duty i))) [0..<n]))"
    if nz: "inbuf_len \<noteq> 0" and al: "unat inbuf_len mod 4 = 0"
      and room: "unat inbuf_len \<le> unat (rb_get_free (ringbuf handle))"
  proof -
    from pwm_audio_write_16_wide_fits[OF bits res inv nz al room, of inbuf prev waits]
    obtain rb where w: "pwm_audio_write handle (Some inbuf) inbuf_len (Some prev) (True # waits) =
           Some (ESP_OK, Some inbuf_len, handle\<lparr>ringbuf := rb\<rparr>)"
      and inv1: "rb_inv rb"
      and cont1: "rb_contents rb = rb_contents (ringbuf handle) @ bytes n"
      unfolding enc n_def by blast
    have a: "map_option (\<lambda>(r, m, h). (r, m, rb_contents (ringbuf h)))
                 (pwm_audio_write handle (Some inbuf) inbuf_len (Some prev) (True # waits)) =
               Some (ESP_OK, Some inbuf_len, rb_contents (ringbuf handle) @ bytes n)"
      unfolding w by (simp add: cont1)
    have b: "map_option (\<lambda>(r, m, h). filter is_left_duty (concat (map isr_events
                      (fst (sys_run (replicate n Run_isr) (h, hw))))))
                    (pwm_audio_write handle (Some inbuf) inbuf_len (Some prev) (True # waits)) =
                  Some (map (\<lambda>i. Left_duty (ucast (duty i))) [0..<n])"
      if left: "channel_mask handle AND CHANNEL_LEFT_MASK \<noteq> 0"
        and mono: "channel_set_num handle = 1"
        and empty: "head (ringbuf handle) = tail (ringbuf handle)"
    proof -
      let ?h = "handle\<lparr>ringbuf := rb\<rparr>"
      have c: "rb_contents (ringbuf ?h) =
          concat (map (\<lambda>d. [ucast d, ucast (drop_bit 8 d)]) (map duty [0..<n])) @ []"
        using cont1 rb_contents_empty[OF empty] by (simp add: enc')
      have "filter is_left_duty (concat (map isr_events
           (fst (sys_run (replicate (length (map duty [0..<n])) Run_isr) (?h, hw))))) =
         map (\<lambda>d. Left_duty (ucast d)) (map duty [0..<n])"
        using left mono res inv1 by (intro sys_run_isr_left_mono[OF _ _ _ _ c]) simp_all
      then show ?thesis unfolding w by (simp add: comp_def)
    qed
    from a b show ?thesis by blast
  qed
  from p1 have a1: "\<forall>i. buf_16b inbuf i \<noteq> 0x8000 \<longrightarrow>
      uint (ucast (duty i) :: 32 word) = (sint (buf_16b inbuf i) + 32767) div 2 ^ 6"
    by simp
  from p2 have a2: "\<forall>r m h'.
      pwm_audio_write handle (Some inbuf) inbuf_len (Some prev) waits = Some (r, m, h') \<longrightarrow>
      (\<exists>k\<le>n. rb_contents (ringbuf h') = rb_contents (ringbuf handle) @ bytes k)"
    by simp
  note a3 = p3[rule_format]
  show ?thesis
    unfolding Let_def duty_def[symmetric] n_def[symmetric]
    using a1 a2 a3 unfolding bytes_def by (intro conjI impI; (elim conjE)?; simp)

qed

theorem sample16_duty_roundtrip_witness:
  "rb_inv \<lparr>buf = replicate 1024 0, head = 0, tail = 0, size_rb = 1024, is_give = 0\<rparr> \<and>
   map_option (\<lambda>(r, m, h). (r, m, rb_contents (ringbuf h)))
     (pwm_audio_write
        \<lparr>duty_resolution = 10,
         ringbuf = \<lparr>buf = replicate 1024 0, head = 0, tail = 0, size_rb = 1024, is_give = 0\<rparr>,
         channel_mask = 1, channel_set_num = 1, framerate = 16000, bits_per_sample = 16,
         status = PWM_AUDIO_STATUS_BUSY\<rparr>
        (Some [0xff, 0x7f, 0x01, 0x80, 0x00, 0x00, 0xe8, 0x03]) 8 (Some 0) [True]) =
     Some (ESP_OK, Some 8, [0xff, 0x03, 0x00, 0x00, 0xff, 0x01, 0x0f, 0x02]) \<and>
   map_option (\<lambda>(r, m, h). filter is_left_duty (concat (map isr_events
       (fst (sys_run (replicate 4 Run_isr) (h,
          \<lparr>g_ledc_left_duty_val = 0, g_ledc_left_conf0_val = 0, g_ledc_left_conf1_val = 0,
           g_ledc_right_duty_val = 0, g_ledc_right_conf0_val = 0, g_ledc_right_conf1_val = 0,
           wave_h = 0, wave_l = 0, isr_value = 0\<rparr>))))))
     (pwm_audio_write
        \<lparr>duty_resolution = 10,
         ringbuf = \<lparr>buf = replicate 1024 0, head = 0, tail = 0, size_rb = 1024, is_give = 0\<rparr>,
         channel_mask = 1, channel_set_num = 1, framerate = 16000, bits_per_sample = 16,
         status = PWM_AUDIO_STATUS_BUSY\<rparr>
        (Some [0xff, 0x7f, 0x01, 0x80, 0x00, 0x00, 0xe8, 0x03]) 8 (Some 0) [True]) =
     Some [Left_duty 1023, Left_duty 0, Left_duty 511, Left_duty 527] \<and>
   buf_16b [0xff, 0x7f, 0x01, 0x80, 0x00, 0x00, 0xe8, 0x03] 0 = 0x7fff \<and>
   sint (0x7fff :: 16 word) = 32767 \<and> (32767 + 32767) div 2 ^ 6 = (1023 :: int) \<and>
   buf_16b [0xff, 0x7f, 0x01, 0x80, 0x00, 0x00, 0xe8, 0x03] 1 = 0x8001 \<and>
   sint (0x8001 :: 16 word) = - 32767 \<and> (- 32767 + 32767) div 2 ^ 6 = (0 :: int) \<and>
   buf_16b [0xff, 0x7f, 0x01, 0x80, 0x00, 0x00, 0xe8, 0x03] 3 = 0x03e8 \<and>
   sint (0x03e8 :: 16 word) = 1000 \<and> (1000 + 32767) div 2 ^ 6 = (527 :: int)"
proof -
  let ?h = "\<lparr>duty_resolution = 10,
         ringbuf = \<lparr>buf = replicate 1024 0, head = 0, tail = 0, size_rb = 1024, is_give = 0\<rparr>,
         channel_mask = 1, channel_set_num = 1, framerate = 16000, bits_per_sample = 16,
         status = PWM_AUDIO_STATUS_BUSY\<rparr>"
  let ?inbuf = "[0xff, 0x7f, 0x01, 0x80, 0x00, 0x00, 0xe8, 0x03] :: 8 word list"
  let ?hw = "\<lparr>g_ledc_left_duty_val = 0, g_ledc_left_conf0_val = 0, g_ledc_left_conf1_val = 0,
        g_ledc_right_duty_val = 0, g_ledc_right_conf0_val = 0, g_ledc_right_conf1_val = 0,
        wave_h = 0, wave_l = 0, isr_value = 0\<rparr>"
  have inv: "rb_inv (ringbuf ?h)"
    by (simp add: rb_inv_def rb_idx_ok_def)
  have n: "unat (8 :: 32 word) div 2 = 4" by simp
  have s: "buf_16b ?inbuf 0 = 0x7fff" "buf_16b ?inbuf 1 = 0x8001" "buf_16b ?inbuf 2 = 0"
    "buf_16b ?inbuf 3 = 0x03e8"
    by (simp_all add: buf_16b_def)
  have s': "buf_16b ?inbuf (Suc 0) = 0x8001"
    using s(2) by simp
  have u: "[0..<4] = [0, 1, 2, 3]" by (simp add: upt_rec)
  have bytes: "concat (map (\<lambda>i. [ucast (drop_bit 6 (buf_16b ?inbuf i + 0x7fff)),
        ucast (drop_bit 8 (drop_bit 6 (buf_16b ?inbuf i + 0x7fff)))]) [0..<4]) =
      ([0xff, 0x03, 0x00, 0x00, 0xff, 0x01, 0x0f, 0x02] :: 8 word list)"
    unfolding u by (simp add: s s')
  have duties: "map (\<lambda>i. Left_duty (ucast (drop_bit 6 (buf_16b ?inbuf i + 0x7fff)))) [0..<4] =
      [Left_duty 1023, Left_duty 0, Left_duty 511, Left_duty 527]"
    unfolding u by (simp add: s s')
  have e: "rb_contents (ringbuf ?h) = []"
    by (simp add: rb_contents_empty)
  have pre: "(8 :: 32 word) \<noteq> 0 \<and> unat (8 :: 32 word) mod 4 = 0 \<and>
      unat (8 :: 32 word) \<le> unat (rb_get_free (ringbuf ?h))"
    "channel_mask ?h AND CHANNEL_LEFT_MASK \<noteq> 0 \<and> channel_set_num ?h = 1 \<and>
      head (ringbuf ?h) = tail (ringbuf ?h)"
    by (simp_all add: rb_get_free_def rb_get_count_def CHANNEL_LEFT_MASK_def)
  note t = sample16_duty_roundtrip [where handle = ?h and inbuf = ?inbuf and inbuf_len = 8
      and prev = 0 and waits = "[]" and hw = ?hw, unfolded Let_def n bytes duties e append_Nil]
  have "bits_per_sample ?h = 16" "duty_resolution ?h = 10" "unat (8 :: 32 word) \<le> length ?inbuf"
    by simp_all
  from t[OF this(1,2) inv this(3)] pre
  have "map_option (\<lambda>(r, m, h). (r, m, rb_contents (ringbuf h)))
          (pwm_audio_write ?h (Some ?inbuf) 8 (Some 0) [True]) =
        Some (ESP_OK, Some 8, [0xff, 0x03, 0x00, 0x00, 0xff, 0x01, 0x0f, 0x02])"
    and "map_option (\<lambda>(r, m, h). filter is_left_duty (concat (map isr_events
            (fst (sys_run (replicate 4 Run_isr) (h, ?hw))))))
          (pwm_audio_write ?h (Some ?inbuf) 8 (Some 0) [True]) =
        Some [Left_duty 1023, Left_duty 0, Left_duty 511, Left_duty 527]"
    by blast+
  with inv s show ?thesis by simp
qed

text \<open>
  Claim C4 as stated fails at the sample -32768: the sum \<open>-32768 + 32767 = -1\<close> is
  stored in the \<^verbatim>\<open>uint16_t\<close> as 65535, and the handler reconstructs the duty 1023, the
  largest, where \<open>(s + 32767) >> 6\<close> is \<open>-1\<close>.
\<close>

theorem sample16_minimum_wraps_counterexample:
  "map_option (\<lambda>(r, n, h). (r, n, filter is_left_duty (fst (timer_group_isr (Some h)
       \<lparr>g_ledc_left_duty_val = 0, g_ledc_left_conf0_val = 0, g_ledc_left_conf1_val = 0,
        g_ledc_right_duty_val = 0, g_ledc_right_conf0_val = 0, g_ledc_right_conf1_val = 0,
        wave_h = 0, wave_l = 0, isr_value = 0\<rparr>))))
     (pwm_audio_write
        \<lparr>duty_resolution = 10,
         ringbuf = \<lparr>buf = replicate 1024 0, head = 0, tail = 0, size_rb = 1024, is_give = 0\<rparr>,
         channel_mask = 3, channel_set_num = 2, framerate = 16000, bits_per_sample = 16,
         status = PWM_AUDIO_STATUS_BUSY\<rparr>
        (Some [0x00, 0x80, 0x01, 0x80]) 4 (Some 0) [True]) =
     Some (ESP_OK, Some 4, [Left_duty 1023]) \<and>
   buf_16b [0x00, 0x80, 0x01, 0x80] 0 = 0x8000 \<and>
   sint (0x8000 :: 16 word) = - 32768 \<and>
   (sint (0x8000 :: 16 word) + 32767) div 2 ^ 6 = - 1 \<and>
   uint (1023 :: 32 word) \<noteq> (sint (0x8000 :: 16 word) + 32767) div 2 ^ 6"
  using sample16_write_then_isr [where handle =
        "\<lparr>duty_resolution = 10,
         ringbuf = \<lparr>buf = replicate 1024 0, head = 0, tail = 0, size_rb = 1024, is_give = 0\<rparr>,
         channel_mask = 3, channel_set_num = 2, framerate = 16000, bits_per_sample = 16,
         status = PWM_AUDIO_STATUS_BUSY\<rparr>"
      and s = "0x8000" and s' = "0x8001" and prev = 0 and waits = "[]" and hw =
       "\<lparr>g_ledc_left_duty_val = 0, g_ledc_left_conf0_val = 0, g_ledc_left_conf1_val = 0,
        g_ledc_right_duty_val = 0, g_ledc_right_conf0_val = 0, g_ledc_right_conf1_val = 0,
        wave_h = 0, wave_l = 0, isr_value = 0\<rparr>"]
  unfolding sample_bytes_examples
  by (simp add: rb_inv_def rb_idx_ok_def rb_get_free_def rb_get_count_def CHANNEL_LEFT_MASK_def
      buf_16b_def)

end
